theory Spec2Isabelle
  imports Main
begin

section \<open>Schema-type mapping helper (plugins/utils/miscellaneous.py)\<close>

text \<open>
  Python's \<^verbatim>\<open>key in schema_type\<close> on two strings is the substring test: it compares
  characters exactly, so it distinguishes letter case. \<open>starts_with s k\<close> says that
  \<open>k\<close> is a prefix of \<open>s\<close>; \<open>str_contains s k\<close> says that \<open>k\<close> occurs in \<open>s\<close> at some
  position.
\<close>

fun starts_with :: "string \<Rightarrow> string \<Rightarrow> bool" where
  "starts_with s [] = True"
| "starts_with [] (k # ks) = False"
| "starts_with (c # cs) (k # ks) = (c = k \<and> starts_with cs ks)"

fun str_contains :: "string \<Rightarrow> string \<Rightarrow> bool" where
  "str_contains [] k = (k = [])"
| "str_contains (c # cs) k = (starts_with (c # cs) k \<or> str_contains cs k)"

text \<open>
  The dictionary literal \<^verbatim>\<open>type\<close> of \<^verbatim>\<open>get_parsed_schema_type\<close>. A Python dictionary
  iterates in insertion order, so the table is an association list in the order of the
  literal.
\<close>

definition type_table :: "(string \<times> string) list" where
  "type_table =
    [(''datetime'', ''TIMESTAMP''),
     (''timestamp'', ''TIMESTAMP''),
     (''bool'', ''BOOLEAN''),
     (''int'', ''INTEGER''),
     (''float'', ''FLOAT''),
     (''numeric'', ''FLOAT''),
     (''double'', ''FLOAT''),
     (''decimal'', ''FLOAT''),
     (''time'', ''TIME''),
     (''date'', ''DATE'')]"

text \<open>
  The loop \<^verbatim>\<open>for key, value in type.items(): if key in schema_type: return value\<close>,
  followed by \<^verbatim>\<open>return "STRING"\<close>.
\<close>

fun lookup_type :: "(string \<times> string) list \<Rightarrow> string \<Rightarrow> string" where
  "lookup_type [] schema_type = ''STRING''"
| "lookup_type ((key, val) # rest) schema_type =
     (if str_contains schema_type key then val else lookup_type rest schema_type)"

definition get_parsed_schema_type :: "string \<Rightarrow> string" where
  "get_parsed_schema_type schema_type = lookup_type type_table schema_type"

text \<open>
  ASCII lower-casing, used only to say that a key occurs in an input "in a different
  letter case"; the program itself never changes the case of anything.
\<close>

definition ascii_lower :: "char \<Rightarrow> char" where
  "ascii_lower c =
     (case map_of (zip ''ABCDEFGHIJKLMNOPQRSTUVWXYZ'' ''abcdefghijklmnopqrstuvwxyz'') c of
        Some l \<Rightarrow> l
      | None \<Rightarrow> c)"

definition occurs_ignoring_case :: "string \<Rightarrow> string \<Rightarrow> bool" where
  "occurs_ignoring_case s k = str_contains (map ascii_lower s) (map ascii_lower k)"

section \<open>The metadata store seen through SQLAlchemy\<close>

text \<open>
  A row carries the owning workflow identifier \<^verbatim>\<open>dag_id\<close> (a string column, \<open>None\<close> is
  SQL NULL), its timestamp columns and its boolean columns; a column that a row does
  not list is NULL there. Timestamps are counted in microseconds since
  0001-01-01T00:00:00 UTC, the resolution and origin of Python's \<^verbatim>\<open>datetime\<close>.
  A table is the list of its rows; the store maps a table name to its rows, and to
  \<open>None\<close> when the table does not exist in this deployment.
\<close>

record row =
  dag_id :: "string option"
  stamps :: "(string \<times> int) list"
  flags :: "(string \<times> bool) list"

type_synonym db = "string \<Rightarrow> row list option"

datatype column = DagId | Stamp string | Flag string

datatype val = VStr string | VTime int | VBool bool

definition cell :: "row \<Rightarrow> column \<Rightarrow> val option" where
  "cell r c =
     (case c of
        DagId \<Rightarrow> map_option VStr (dag_id r)
      | Stamp n \<Rightarrow> map_option VTime (map_of (stamps r) n)
      | Flag n \<Rightarrow> map_option VBool (map_of (flags r) n))"

text \<open>
  The boolean expressions the program builds:
  \<^verbatim>\<open>column <= max_date\<close>, \<^verbatim>\<open>column.is_(flag)\<close> and \<^verbatim>\<open>model.dag_id == dag\<close>.
  SQLAlchemy renders \<^verbatim>\<open>dag_id == None\<close> as \<^verbatim>\<open>dag_id IS NULL\<close> and a comparison with a
  string as \<^verbatim>\<open>dag_id = 'X'\<close>. A condition evaluates in SQL's three-valued logic:
  \<open>None\<close> is UNKNOWN, which a comparison with NULL gives.
\<close>

datatype cond = Le string int | Is string bool | EqDag "string option"

fun eval_cond :: "row \<Rightarrow> cond \<Rightarrow> bool option" where
  "eval_cond r (Le c t) = map_option (\<lambda>x. x \<le> t) (map_of (stamps r) c)"
| "eval_cond r (Is c b) = Some (map_of (flags r) c = Some b)"
| "eval_cond r (EqDag None) = Some (dag_id r = None)"
| "eval_cond r (EqDag (Some d)) = map_option (\<lambda>x. x = d) (dag_id r)"

text \<open>
  The subquery \<^verbatim>\<open>session.query(func.max(column))\<close> with its \<^verbatim>\<open>filter\<close> and
  \<^verbatim>\<open>group_by\<close> clauses, and the query over a model with the criteria given to
  \<^verbatim>\<open>filter\<close>, which SQL joins by AND. \<^verbatim>\<open>from_self()\<close> wraps the subquery in a
  derived table and leaves its rows as they are.
\<close>

record subquery =
  sq_table :: string
  sq_max :: string
  sq_filters :: "cond list"
  sq_group_by :: "column option"

datatype criterion = Where cond | NotIn string subquery

record query =
  q_table :: string
  q_load_only :: string
  q_where :: "criterion list"

definition filter_by :: "query \<Rightarrow> criterion list \<Rightarrow> query" where
  "filter_by q cs = q\<lparr>q_where := q_where q @ cs\<rparr>"

text \<open>
  \<^verbatim>\<open>MAX\<close> skips NULLs and is NULL over no value at all. Without \<^verbatim>\<open>GROUP BY\<close> an
  aggregate query returns exactly one row, also over no rows; with \<^verbatim>\<open>GROUP BY\<close> it
  returns one row for each value of the grouping column among the rows that pass the
  filters, NULL being a group of its own. The order of the groups is not fixed by SQL;
  the model lists them in the order of \<open>remdups\<close>.
\<close>

definition sql_max :: "int option list \<Rightarrow> int option" where
  "sql_max vs =
     (case List.map_filter (\<lambda>v. v) vs of
        [] \<Rightarrow> None
      | t # ts \<Rightarrow> Some (fold max ts t))"

definition passes :: "cond list \<Rightarrow> row \<Rightarrow> bool" where
  "passes cs r = list_all (\<lambda>c. eval_cond r c = Some True) cs"

definition eval_subquery :: "row list \<Rightarrow> subquery \<Rightarrow> int option list" where
  "eval_subquery rows sq =
     (let rs = filter (passes (sq_filters sq)) rows;
          value_of = (\<lambda>r. map_of (stamps r) (sq_max sq))
      in case sq_group_by sq of
           None \<Rightarrow> [sql_max (map value_of rs)]
         | Some g \<Rightarrow>
             map (\<lambda>k. sql_max (map value_of (filter (\<lambda>r. cell r g = k) rs)))
                 (remdups (map (\<lambda>r. cell r g) rs)))"

text \<open>
  \<^verbatim>\<open>x NOT IN (v1, ..., vn)\<close>: TRUE over the empty list; otherwise UNKNOWN when \<open>x\<close> is
  NULL, FALSE when \<open>x\<close> equals one of the values, UNKNOWN when it equals none of them but
  one of them is NULL, and TRUE in the remaining case.
\<close>

definition not_in :: "int option \<Rightarrow> int option list \<Rightarrow> bool option" where
  "not_in x vs =
     (if vs = [] then Some True
      else case x of
             None \<Rightarrow> None
           | Some t \<Rightarrow>
               if Some t \<in> set vs then Some False
               else if None \<in> set vs then None
               else Some True)"

datatype exn = ProgrammingError | OperationalError | OverflowError

text \<open>
  Executing a statement against a store. A table that does not exist makes the database
  driver raise \<^verbatim>\<open>ProgrammingError\<close>. The subquery is not correlated, so it is evaluated
  once for the statement. A row is selected when every criterion is TRUE for it.
\<close>

fun eval_criterion :: "db \<Rightarrow> criterion \<Rightarrow> exn + (row \<Rightarrow> bool option)" where
  "eval_criterion d (Where c) = Inr (\<lambda>r. eval_cond r c)"
| "eval_criterion d (NotIn a sq) =
     (case d (sq_table sq) of
        None \<Rightarrow> Inl ProgrammingError
      | Some rows \<Rightarrow>
          Inr (\<lambda>r. not_in (map_of (stamps r) a) (eval_subquery rows sq)))"

fun eval_where :: "db \<Rightarrow> criterion list \<Rightarrow> exn + (row \<Rightarrow> bool)" where
  "eval_where d [] = Inr (\<lambda>r. True)"
| "eval_where d (c # cs) =
     (case eval_criterion d c of
        Inl e \<Rightarrow> Inl e
      | Inr p \<Rightarrow>
          (case eval_where d cs of
             Inl e \<Rightarrow> Inl e
           | Inr q \<Rightarrow> Inr (\<lambda>r. p r = Some True \<and> q r)))"

definition matching :: "db \<Rightarrow> query \<Rightarrow> exn + (row \<Rightarrow> bool)" where
  "matching d q =
     (case d (q_table q) of
        None \<Rightarrow> Inl ProgrammingError
      | Some rows \<Rightarrow> eval_where d (q_where q))"

text \<open>\<^verbatim>\<open>query.all()\<close> and \<^verbatim>\<open>query.delete(synchronize_session=False)\<close>.\<close>

definition select_all :: "db \<Rightarrow> query \<Rightarrow> exn + row list" where
  "select_all d q =
     (case matching d q of
        Inl e \<Rightarrow> Inl e
      | Inr p \<Rightarrow> Inr (filter p (the (d (q_table q)))))"

definition delete_all :: "db \<Rightarrow> query \<Rightarrow> exn + db" where
  "delete_all d q =
     (case matching d q of
        Inl e \<Rightarrow> Inl e
      | Inr p \<Rightarrow> Inr (d(q_table q \<mapsto> filter (\<lambda>r. \<not> p r) (the (d (q_table q))))))"

text \<open>
  \<^verbatim>\<open>session.query(model.dag_id).distinct()\<close>, iterated: the distinct values of the
  \<^verbatim>\<open>dag_id\<close> column, NULL among them when some row has no owner.
\<close>

definition select_distinct_dag_id :: "db \<Rightarrow> string \<Rightarrow> exn + string option list" where
  "select_distinct_dag_id d model =
     (case d model of
        None \<Rightarrow> Inl ProgrammingError
      | Some rows \<Rightarrow> Inr (remdups (map dag_id rows)))"

section \<open>The maintenance workflow (plugins/task\_generators/metadata\_maintenance.py)\<close>

subsection \<open>Configuration\<close>

text \<open>
  The module constants \<^verbatim>\<open>PRINT_DELETES\<close> and \<^verbatim>\<open>ENABLE_DELETE\<close>. The functions below
  take them as a parameter, so that the dry run (\<^verbatim>\<open>ENABLE_DELETE = False\<close>) can be
  stated; \<open>module_flags\<close> holds the values the file assigns.
\<close>

record flags =
  print_deletes :: bool
  enable_delete :: bool

definition module_flags :: flags where
  "module_flags = \<lparr>print_deletes = False, enable_delete = True\<rparr>"

text \<open>
  An entry of \<^verbatim>\<open>DATABASE_OBJECTS\<close>. The model is named by its table (\<^verbatim>\<open>BaseJob\<close> is
  \<open>job\<close>, \<^verbatim>\<open>DagRun\<close> is \<open>dag_run\<close>, \<^verbatim>\<open>DagModel\<close> is \<open>dag\<close>, and so on); the
  age-check column is a timestamp column of that table. \<^verbatim>\<open>do_not_delete_by_dag_id\<close> is
  read with \<^verbatim>\<open>params.get\<close>, so an entry without the key counts as false. The filters
  and the group-by column of an entry are conditions on, and a column of, the table of
  the subquery. The entries for \<^verbatim>\<open>TaskFail\<close> and \<^verbatim>\<open>ImportError\<close> are appended when
  the models can be imported; the list below is the one of an installation that has
  both.
\<close>

record db_object =
  airflow_db_model :: string
  age_check_column :: string
  keep_last :: bool
  keep_last_filters :: "cond list option"
  keep_last_group_by :: "column option"
  do_not_delete_by_dag_id :: bool

definition DagRun :: string where
  "DagRun = ''dag_run''"

definition execution_date :: string where
  "execution_date = ''execution_date''"

definition plain_object :: "string \<Rightarrow> string \<Rightarrow> db_object" where
  "plain_object model col =
     \<lparr>airflow_db_model = model, age_check_column = col, keep_last = False,
      keep_last_filters = None, keep_last_group_by = None,
      do_not_delete_by_dag_id = False\<rparr>"

definition DATABASE_OBJECTS :: "db_object list" where
  "DATABASE_OBJECTS =
    [plain_object ''job'' ''latest_heartbeat'',
     \<lparr>airflow_db_model = DagRun, age_check_column = execution_date, keep_last = True,
      keep_last_filters = Some [Is ''external_trigger'' False],
      keep_last_group_by = Some DagId, do_not_delete_by_dag_id = False\<rparr>,
     plain_object ''log'' ''dttm'',
     plain_object ''sla_miss'' ''execution_date'',
     plain_object ''dag'' ''last_parsed_time'',
     plain_object ''task_fail'' ''start_date'',
     (plain_object ''import_error'' ''timestamp'')\<lparr>do_not_delete_by_dag_id := True\<rparr>]"

subsection \<open>print\_configuration\_function\<close>

text \<open>
  \<^verbatim>\<open>timedelta(days)\<close> raises \<^verbatim>\<open>OverflowError\<close> when the number of days exceeds
  999999999 in magnitude, and adding a \<^verbatim>\<open>timedelta\<close> to a \<^verbatim>\<open>datetime\<close> raises it
  when the result leaves the years 1 to 9999 (3652059 days).
\<close>

definition usec_per_day :: int where
  "usec_per_day = 86400000000"

definition timedelta :: "int \<Rightarrow> exn + int" where
  "timedelta days =
     (if \<bar>days\<bar> > 999999999 then Inl OverflowError else Inr (days * usec_per_day))"

definition datetime_add :: "int \<Rightarrow> int \<Rightarrow> exn + int" where
  "datetime_add t delta =
     (if 0 \<le> t + delta \<and> t + delta < 3652059 * usec_per_day then Inr (t + delta)
      else Inl OverflowError)"

text \<open>
  \<^verbatim>\<open>dag_run.conf\<close> is \<open>None\<close> or a dictionary; the override is an integer number of
  days. An empty dictionary is falsy, as \<open>None\<close> is.
\<close>

definition requested_age :: "(string \<times> int) list option \<Rightarrow> int option" where
  "requested_age dag_run_conf =
     (case dag_run_conf of
        None \<Rightarrow> None
      | Some conf \<Rightarrow> if conf = [] then None else map_of conf ''maxDBEntryAgeInDays'')"

definition max_db_entry_age_in_days :: "int \<Rightarrow> (string \<times> int) list option \<Rightarrow> int" where
  "max_db_entry_age_in_days default_age dag_run_conf =
     (case requested_age dag_run_conf of
        None \<Rightarrow> default_age
      | Some n \<Rightarrow> if n < 1 then default_age else n)"

text \<open>
  The result is the value pushed to XCom under the key \<^verbatim>\<open>max_date\<close>. The constant
  \<^verbatim>\<open>DEFAULT_MAX_DB_ENTRY_AGE_IN_DAYS\<close> is imported from \<^verbatim>\<open>plugins.constants.variables\<close>
  and is a parameter here, as is the clock \<^verbatim>\<open>now()\<close>.
\<close>

definition print_configuration_function ::
  "int \<Rightarrow> int \<Rightarrow> (string \<times> int) list option \<Rightarrow> exn + int" where
  "print_configuration_function default_age now dag_run_conf =
     (case timedelta (- max_db_entry_age_in_days default_age dag_run_conf) of
        Inl e \<Rightarrow> Inl e
      | Inr delta \<Rightarrow> datetime_add now delta)"

subsection \<open>build\_query\<close>

text \<open>
  The arguments are the model, the age-check column, \<^verbatim>\<open>max_date\<close> and the three
  keep-last settings; the session only serves to build the query. \<^verbatim>\<open>and_\<close> of a single
  clause is that clause, and \<^verbatim>\<open>filter\<close> with two criteria joins them by AND. The
  subquery is built on \<^verbatim>\<open>func.max(DagRun.execution_date)\<close> whatever the model and the
  age-check column are.
\<close>

definition build_query ::
  "string \<Rightarrow> string \<Rightarrow> int \<Rightarrow> bool \<Rightarrow> cond list option \<Rightarrow> column option \<Rightarrow> query" where
  "build_query model age_col max_date keep_last_flag filters group_by =
     (let query = \<lparr>q_table = model, q_load_only = age_col, q_where = []\<rparr>
      in if \<not> keep_last_flag then filter_by query [Where (Le age_col max_date)]
         else
           let subquery = \<lparr>sq_table = DagRun, sq_max = execution_date,
                            sq_filters = [], sq_group_by = None\<rparr>;
               subquery = (case filters of
                             None \<Rightarrow> subquery
                           | Some entries \<Rightarrow>
                               fold (\<lambda>entry sq. sq\<lparr>sq_filters := sq_filters sq @ [entry]\<rparr>)
                                    entries subquery);
               subquery = (case group_by of
                             None \<Rightarrow> subquery
                           | Some g \<Rightarrow> subquery\<lparr>sq_group_by := Some g\<rparr>)
           in filter_by query [NotIn age_col subquery, Where (Le age_col max_date)])"

definition query_of :: "db_object \<Rightarrow> int \<Rightarrow> query" where
  "query_of ob max_date =
     build_query (airflow_db_model ob) (age_check_column ob) max_date (keep_last ob)
       (keep_last_filters ob) (keep_last_group_by ob)"

text \<open>
  The predicate as the specification words it: the protected keys are the maximum of
  the category's own age-check attribute, over the category's own rows.
\<close>

definition spec_eligibility_predicate :: "db_object \<Rightarrow> int \<Rightarrow> criterion list" where
  "spec_eligibility_predicate ob cutoff =
     (if \<not> keep_last ob then [Where (Le (age_check_column ob) cutoff)]
      else
        [NotIn (age_check_column ob)
           \<lparr>sq_table = airflow_db_model ob, sq_max = age_check_column ob,
            sq_filters = (case keep_last_filters ob of None \<Rightarrow> [] | Some fs \<Rightarrow> fs),
            sq_group_by = keep_last_group_by ob\<rparr>,
         Where (Le (age_check_column ob) cutoff)])"

subsection \<open>The session\<close>

text \<open>
  A session holds the committed store and the store as the open transaction sees it.
  \<^verbatim>\<open>commit\<close> makes the transaction's changes permanent; \<^verbatim>\<open>close\<close> drops what
  was not committed. The log keeps the lines that depend on the data or on the flags;
  the lines that echo the configuration are left out.
\<close>

datatype event =
    Entries_to_delete "row list"
  | Performing_delete
  | Delete_disabled
  | Finished
  | Not_present_skipping string

record session =
  committed :: db
  working :: db
  log :: "event list"

definition logging :: "event \<Rightarrow> session \<Rightarrow> session" where
  "logging ev s = s\<lparr>log := log s @ [ev]\<rparr>"

definition commit :: "session \<Rightarrow> session" where
  "commit s = s\<lparr>committed := working s\<rparr>"

definition close :: "session \<Rightarrow> session" where
  "close s = s\<lparr>working := committed s\<rparr>"

text \<open>
  Any call to the store may fail for reasons outside the data (a lost connection, a lock
  timeout). A fault plan says which statements fail that way and with which exception;
  \<open>no_faults\<close> is the store that only fails for a missing table.
\<close>

type_synonym fault = "query \<Rightarrow> exn option"

definition no_faults :: fault where
  "no_faults = (\<lambda>q. None)"

definition print_query :: "fault \<Rightarrow> query \<Rightarrow> session \<Rightarrow> exn option \<times> session" where
  "print_query flt q s =
     (case flt q of
        Some e \<Rightarrow> (Some e, s)
      | None \<Rightarrow>
          (case select_all (working s) q of
             Inl e \<Rightarrow> (Some e, s)
           | Inr entries_to_delete \<Rightarrow> (None, logging (Entries_to_delete entries_to_delete) s)))"

definition query_delete :: "fault \<Rightarrow> query \<Rightarrow> session \<Rightarrow> exn option \<times> session" where
  "query_delete flt q s =
     (case flt q of
        Some e \<Rightarrow> (Some e, s)
      | None \<Rightarrow>
          (case delete_all (working s) q of
             Inl e \<Rightarrow> (Some e, s)
           | Inr d \<Rightarrow> (None, s\<lparr>working := d\<rparr>)))"

subsection \<open>cleanup\_function\<close>

text \<open>
  The statements that both branches of \<^verbatim>\<open>cleanup_function\<close> run on a query:
  \<^verbatim>\<open>if PRINT_DELETES: print_query(...)\<close>, \<^verbatim>\<open>if ENABLE_DELETE: query.delete(...)\<close>,
  \<^verbatim>\<open>session.commit()\<close>. An exception leaves at once.
\<close>

definition delete_and_commit :: "flags \<Rightarrow> fault \<Rightarrow> query \<Rightarrow> session \<Rightarrow> exn option \<times> session" where
  "delete_and_commit fl flt q s =
     (case (if print_deletes fl then print_query flt q s else (None, s)) of
        (Some e, s1) \<Rightarrow> (Some e, s1)
      | (None, s1) \<Rightarrow>
          (case (if enable_delete fl then query_delete flt q (logging Performing_delete s1)
                 else (None, s1)) of
             (Some e, s2) \<Rightarrow> (Some e, s2)
           | (None, s2) \<Rightarrow> (None, commit s2)))"

text \<open>
  \<^verbatim>\<open>list_dags = [str(list(dag)[0]) for dag in dags] + [None]\<close>. Python's \<^verbatim>\<open>str\<close>
  turns the \<open>None\<close> that the driver returns for NULL into the text \<^verbatim>\<open>None\<close>.
\<close>

definition py_str :: "string option \<Rightarrow> string" where
  "py_str v = (case v of None \<Rightarrow> ''None'' | Some s \<Rightarrow> s)"

definition list_dags :: "db \<Rightarrow> string \<Rightarrow> exn + string option list" where
  "list_dags d model =
     (case select_distinct_dag_id d model of
        Inl e \<Rightarrow> Inl e
      | Inr dags \<Rightarrow> Inr (map (\<lambda>dag. Some (py_str dag)) dags @ [None]))"

definition partition_query :: "db_object \<Rightarrow> int \<Rightarrow> string option \<Rightarrow> query" where
  "partition_query ob max_date dag = filter_by (query_of ob max_date) [Where (EqDag dag)]"

text \<open>The loop \<^verbatim>\<open>for dag in list_dags\<close>.\<close>

fun for_dag :: "flags \<Rightarrow> fault \<Rightarrow> db_object \<Rightarrow> int \<Rightarrow> string option list \<Rightarrow> session
    \<Rightarrow> exn option \<times> session" where
  "for_dag fl flt ob max_date [] s = (None, s)"
| "for_dag fl flt ob max_date (dag # dags) s =
     (case delete_and_commit fl flt (partition_query ob max_date dag) s of
        (Some e, s1) \<Rightarrow> (Some e, s1)
      | (None, s1) \<Rightarrow> for_dag fl flt ob max_date dags s1)"

text \<open>The body of the \<^verbatim>\<open>try\<close> block.\<close>

definition try_block :: "flags \<Rightarrow> fault \<Rightarrow> db_object \<Rightarrow> int \<Rightarrow> session \<Rightarrow> exn option \<times> session" where
  "try_block fl flt ob max_date s =
     (case (if do_not_delete_by_dag_id ob
            then delete_and_commit fl flt (query_of ob max_date) s
            else
              (case list_dags (working (commit s)) (airflow_db_model ob) of
                 Inl e \<Rightarrow> (Some e, commit s)
               | Inr dags \<Rightarrow> for_dag fl flt ob max_date dags (commit s))) of
        (Some e, s1) \<Rightarrow> (Some e, s1)
      | (None, s1) \<Rightarrow>
          (None, logging Finished
                   (if \<not> enable_delete fl then logging Delete_disabled s1 else s1)))"

text \<open>
  \<^verbatim>\<open>cleanup_function\<close> for one entry of \<^verbatim>\<open>DATABASE_OBJECTS\<close>, on a fresh session
  over the given store: the \<^verbatim>\<open>try\<close> block, \<^verbatim>\<open>except ProgrammingError\<close> (which logs
  and returns normally; any other exception propagates), and \<^verbatim>\<open>finally\<close> with
  \<^verbatim>\<open>session.close()\<close>. \<^verbatim>\<open>max_date\<close> is the value read back from XCom. The result is
  the exception that leaves the function, if any, and the session as it is left.
\<close>

definition cleanup_function :: "flags \<Rightarrow> fault \<Rightarrow> db_object \<Rightarrow> int \<Rightarrow> db \<Rightarrow> exn option \<times> session" where
  "cleanup_function fl flt ob max_date store =
     (case try_block fl flt ob max_date \<lparr>committed = store, working = store, log = []\<rparr> of
        (Some ProgrammingError, s) \<Rightarrow>
          (None, close (logging (Not_present_skipping (airflow_db_model ob)) s))
      | (r, s) \<Rightarrow> (r, close s))"

definition store_after :: "exn option \<times> session \<Rightarrow> db" where
  "store_after out = committed (snd out)"

text \<open>
  The module creates one \<^verbatim>\<open>cleanup\<close> task for each entry of \<^verbatim>\<open>DATABASE_OBJECTS\<close>,
  each downstream of \<^verbatim>\<open>print_configuration\<close> only, so a task runs whatever became of
  its siblings. \<open>run_cleanups\<close> runs them one after the other in the order of the list
  and collects what each task raised.
\<close>

fun run_cleanups :: "flags \<Rightarrow> fault \<Rightarrow> db_object list \<Rightarrow> int \<Rightarrow> db \<Rightarrow> exn option list \<times> db" where
  "run_cleanups fl flt [] max_date store = ([], store)"
| "run_cleanups fl flt (ob # obs) max_date store =
     (let out = cleanup_function fl flt ob max_date store;
          rest = run_cleanups fl flt obs max_date (store_after out)
      in (fst out # fst rest, snd rest))"

subsection \<open>Notions used to state the properties\<close>

text \<open>
  A number of days is representable at a given time when \<^verbatim>\<open>timedelta\<close> accepts it and
  the time that many days earlier is still a \<^verbatim>\<open>datetime\<close>.
\<close>

definition representable :: "int \<Rightarrow> int \<Rightarrow> bool" where
  "representable now days \<longleftrightarrow>
     \<bar>days\<bar> \<le> 999999999 \<and> 0 \<le> now - days * usec_per_day \<and>
     now - days * usec_per_day < 3652059 * usec_per_day"

text \<open>2024-01-01T00:00:00 UTC, day 738885 after 0001-01-01.\<close>

definition new_year_2024 :: int where
  "new_year_2024 = 738885 * usec_per_day"

text \<open>The subquery that \<^verbatim>\<open>build_query\<close> arrives at for an entry that keeps the last run.\<close>

definition keep_last_subquery :: "db_object \<Rightarrow> subquery" where
  "keep_last_subquery ob =
     \<lparr>sq_table = DagRun, sq_max = execution_date,
      sq_filters = (case keep_last_filters ob of None \<Rightarrow> [] | Some fs \<Rightarrow> fs),
      sq_group_by = keep_last_group_by ob\<rparr>"

text \<open>
  Deleting partition after partition, as the loop does when nothing fails: the store
  that the loop has committed once it is through the given partitions.
\<close>

fun delete_partitions :: "db_object \<Rightarrow> int \<Rightarrow> string option list \<Rightarrow> db \<Rightarrow> exn + db" where
  "delete_partitions ob max_date [] d = Inr d"
| "delete_partitions ob max_date (dag # dags) d =
     (case delete_all d (partition_query ob max_date dag) of
        Inl e \<Rightarrow> Inl e
      | Inr d1 \<Rightarrow> delete_partitions ob max_date dags d1)"

text \<open>Sample rows and stores for the concrete instances below.\<close>

definition run_row :: "string option \<Rightarrow> int \<Rightarrow> row" where
  "run_row owner t =
     \<lparr>dag_id = owner, stamps = [(''execution_date'', t)],
      flags = [(''external_trigger'', False)]\<rparr>"

definition log_row :: "string option \<Rightarrow> int \<Rightarrow> row" where
  "log_row owner t = \<lparr>dag_id = owner, stamps = [(''dttm'', t)], flags = []\<rparr>"

definition no_tables :: db where
  "no_tables = (\<lambda>t. None)"

definition sample_logs :: db where
  "sample_logs =
     no_tables(''log'' \<mapsto>
       [log_row (Some ''X'') 900, log_row (Some ''X'') 1, log_row (Some ''Y'') 2,
        log_row None 3])"

definition fail_on :: "query \<Rightarrow> exn \<Rightarrow> fault" where
  "fail_on q e = (\<lambda>q'. if q' = q then Some e else None)"

definition dry_flags :: flags where
  "dry_flags = \<lparr>print_deletes = True, enable_delete = False\<rparr>"

definition fresh :: "db \<Rightarrow> session" where
  "fresh d = \<lparr>committed = d, working = d, log = []\<rparr>"

definition log_partition :: "string option \<Rightarrow> query" where
  "log_partition dag = partition_query (DATABASE_OBJECTS ! 2) 100 dag"

text \<open>A table is absent from a session when neither of its two stores has it.\<close>

definition absent :: "string \<Rightarrow> session \<Rightarrow> bool" where
  "absent t s \<longleftrightarrow> working s t = None \<and> committed s t = None"

text \<open>
  A lost connection at partition \<open>Y\<close> of the sample log table, and the table once
  partition \<open>X\<close> is deleted.
\<close>

definition fault_on_Y :: fault where
  "fault_on_Y = fail_on (log_partition (Some ''Y'')) OperationalError"

definition after_X :: db where
  "after_X =
     sample_logs(''log'' \<mapsto>
       [log_row (Some ''X'') 900, log_row (Some ''Y'') 2, log_row None 3])"

text \<open>
  Two rows of the subquery's table are in the same group when they agree on the
  group-by column; without \<^verbatim>\<open>GROUP BY\<close> all rows form one group.
\<close>

definition same_group :: "column option \<Rightarrow> row \<Rightarrow> row \<Rightarrow> bool" where
  "same_group g r r' = (case g of None \<Rightarrow> True | Some c \<Rightarrow> cell r' c = cell r c)"


text \<open>The protected keys: the rows the subquery of the entry returns.\<close>

definition protected_keys :: "row list \<Rightarrow> db_object \<Rightarrow> int option list" where
  "protected_keys runs ob = eval_subquery runs (keep_last_subquery ob)"

text \<open>
  A row is eligible when it is at or before the cutoff and, for an entry that keeps the
  last run, its age-check value is \<^verbatim>\<open>NOT IN\<close> the protected keys.
\<close>

definition eligible :: "db_object \<Rightarrow> int \<Rightarrow> int option list \<Rightarrow> row \<Rightarrow> bool" where
  "eligible ob cutoff keys r \<longleftrightarrow>
     eval_cond r (Le (age_check_column ob) cutoff) = Some True \<and>
     (keep_last ob \<longrightarrow> not_in (map_of (stamps r) (age_check_column ob)) keys = Some True)"

text \<open>
  The rows at or before the cutoff that the query of the entry does not select: the
  rows that the keep-last rule exempts.
\<close>

definition exempt_rows :: "db \<Rightarrow> db_object \<Rightarrow> int \<Rightarrow> row list" where
  "exempt_rows d ob cutoff =
     (case select_all d (query_of ob cutoff) of
        Inl e \<Rightarrow> []
      | Inr selected \<Rightarrow>
          filter (\<lambda>r. eval_cond r (Le (age_check_column ob) cutoff) = Some True \<and>
                       r \<notin> set selected)
            (the (d (airflow_db_model ob))))"

text \<open>
  Sample run tables: two owners with two runs each; two runs with the same newest date;
  a run of \<open>X\<close> that is not its newest but carries the newest date of \<open>Y\<close>; and runs
  with a start date, for an entry over the run table whose age-check column is
  \<^verbatim>\<open>start_date\<close>.
\<close>

definition sample_runs :: db where
  "sample_runs =
     no_tables(''dag_run'' \<mapsto>
       [run_row (Some ''X'') 1, run_row (Some ''X'') 5, run_row (Some ''Y'') 2,
        run_row (Some ''Y'') 7])"

definition sample_runs_after_X :: db where
  "sample_runs_after_X =
     no_tables(''dag_run'' \<mapsto>
       [run_row (Some ''X'') 5, run_row (Some ''Y'') 2, run_row (Some ''Y'') 7])"

definition tied_runs :: db where
  "tied_runs =
     no_tables(''dag_run'' \<mapsto>
       [run_row (Some ''X'') 5, run_row (Some ''Y'') 5, run_row (Some ''X'') 1])"

definition crossed_runs :: db where
  "crossed_runs =
     no_tables(''dag_run'' \<mapsto>
       [run_row (Some ''X'') 5, run_row (Some ''X'') 3, run_row (Some ''Y'') 3])"

definition keep_last_overall :: db_object where
  "keep_last_overall = (DATABASE_OBJECTS ! 1)\<lparr>keep_last_group_by := None\<rparr>"

definition by_start_date :: db_object where
  "by_start_date =
     \<lparr>airflow_db_model = DagRun, age_check_column = ''start_date'', keep_last = True,
      keep_last_filters = None, keep_last_group_by = None, do_not_delete_by_dag_id = False\<rparr>"

definition started_row :: "int \<Rightarrow> int \<Rightarrow> row" where
  "started_row e s =
     \<lparr>dag_id = Some ''X'', stamps = [(''execution_date'', e), (''start_date'', s)],
      flags = []\<rparr>"

definition started_runs :: db where
  "started_runs = no_tables(''dag_run'' \<mapsto> [started_row 10 5, started_row 5 10])"

section \<open>Properties of the schema-type mapping\<close>

lemma starts_with_iff: "starts_with s k \<longleftrightarrow> (\<exists>q. s = k @ q)"
  by (induction s k rule: starts_with.induct) auto

text \<open>\<open>str_contains\<close> is the substring relation.\<close>

lemma str_contains_iff: "str_contains s k \<longleftrightarrow> (\<exists>p q. s = p @ k @ q)"
proof (induction s)
  case Nil
  then show ?case by auto
next
  case (Cons c cs)
  show ?case
  proof
    assume "str_contains (c # cs) k"
    then consider "starts_with (c # cs) k" | "str_contains cs k" by auto
    then show "\<exists>p q. c # cs = p @ k @ q"
    proof cases
      case 1
      then obtain q where "c # cs = k @ q" by (auto simp: starts_with_iff)
      then have "c # cs = [] @ k @ q" by simp
      then show ?thesis by blast
    next
      case 2
      then obtain p q where "cs = p @ k @ q" using Cons.IH by auto
      then have "c # cs = (c # p) @ k @ q" by simp
      then show ?thesis by blast
    qed
  next
    assume "\<exists>p q. c # cs = p @ k @ q"
    then obtain p q where pq: "c # cs = p @ k @ q" by blast
    show "str_contains (c # cs) k"
    proof (cases p)
      case Nil
      with pq have "starts_with (c # cs) k" by (auto simp: starts_with_iff)
      then show ?thesis by simp
    next
      case (Cons a p')
      with pq have "cs = p' @ k @ q" by simp
      then have "str_contains cs k" using Cons.IH by blast
      then show ?thesis by simp
    qed
  qed
qed

lemma lookup_type_first:
  "i < length t \<Longrightarrow> str_contains s (fst (t ! i)) \<Longrightarrow>
   (\<forall>j<i. \<not> str_contains s (fst (t ! j))) \<Longrightarrow> lookup_type t s = snd (t ! i)"
proof (induction t arbitrary: i)
  case Nil
  then show ?case by simp
next
  case (Cons kv t)
  obtain k v where kv: "kv = (k, v)" by (cases kv)
  show ?case
  proof (cases i)
    case 0
    with Cons.prems kv show ?thesis by simp
  next
    case (Suc n)
    with Cons.prems have "\<not> str_contains s k" using kv by fastforce
    moreover have "lookup_type t s = snd (t ! n)"
      using Cons.IH[of n] Cons.prems Suc by fastforce
    ultimately show ?thesis using kv Suc by simp
  qed
qed

lemma lookup_type_default:
  "(\<forall>k \<in> set (map fst t). \<not> str_contains s k) \<Longrightarrow> lookup_type t s = ''STRING''"
  by (induction t) auto

text \<open>
  C9. For every input, \<open>get_parsed_schema_type\<close> returns the tag of the first entry of
  the ordered table whose key is a substring of the input (entry \<open>i\<close> matches and no
  entry before it does), and \<open>STRING\<close> when no key is a substring of the input. The
  three inputs of the specification give \<open>TIMESTAMP\<close>, \<open>INTEGER\<close> and \<open>STRING\<close>.
\<close>

theorem get_parsed_schema_type_first_match:
  "(\<forall>i < length type_table.
      str_contains s (fst (type_table ! i)) \<and>
      (\<forall>j < i. \<not> str_contains s (fst (type_table ! j))) \<longrightarrow>
      get_parsed_schema_type s = snd (type_table ! i)) \<and>
   ((\<forall>k \<in> set (map fst type_table). \<not> str_contains s k) \<longrightarrow>
      get_parsed_schema_type s = ''STRING'') \<and>
   get_parsed_schema_type ''datetime64'' = ''TIMESTAMP'' \<and>
   get_parsed_schema_type ''nullable_int'' = ''INTEGER'' \<and>
   get_parsed_schema_type ''weird_enum'' = ''STRING''"
proof (intro conjI allI impI)
  fix i
  assume "i < length type_table"
    and "str_contains s (fst (type_table ! i)) \<and>
         (\<forall>j < i. \<not> str_contains s (fst (type_table ! j)))"
  then show "get_parsed_schema_type s = snd (type_table ! i)"
    unfolding get_parsed_schema_type_def by (intro lookup_type_first) auto
next
  assume "\<forall>k \<in> set (map fst type_table). \<not> str_contains s k"
  then show "get_parsed_schema_type s = ''STRING''"
    unfolding get_parsed_schema_type_def by (rule lookup_type_default)
qed (simp_all add: get_parsed_schema_type_def type_table_def)

text \<open>
  Witness for C9 at the input \<open>nullable_int\<close>: entry 3 of the table (key \<open>int\<close>) is a
  substring, entries 0, 1 and 2 are not, and the result is the tag of entry 3; at the
  input \<open>uuid\<close> no key is a substring and the result is the default.
\<close>

theorem get_parsed_schema_type_first_match_witness:
  "(3::nat) < length type_table \<and>
   str_contains ''nullable_int'' (fst (type_table ! 3)) \<and>
   \<not> str_contains ''nullable_int'' (fst (type_table ! 0)) \<and>
   \<not> str_contains ''nullable_int'' (fst (type_table ! 1)) \<and>
   \<not> str_contains ''nullable_int'' (fst (type_table ! 2)) \<and>
   get_parsed_schema_type ''nullable_int'' = snd (type_table ! 3) \<and>
   snd (type_table ! 3) = ''INTEGER'' \<and>
   \<not> str_contains ''uuid'' ''datetime'' \<and> \<not> str_contains ''uuid'' ''timestamp'' \<and>
   \<not> str_contains ''uuid'' ''bool'' \<and> \<not> str_contains ''uuid'' ''int'' \<and>
   \<not> str_contains ''uuid'' ''float'' \<and> \<not> str_contains ''uuid'' ''numeric'' \<and>
   \<not> str_contains ''uuid'' ''double'' \<and> \<not> str_contains ''uuid'' ''decimal'' \<and>
   \<not> str_contains ''uuid'' ''time'' \<and> \<not> str_contains ''uuid'' ''date'' \<and>
   get_parsed_schema_type ''uuid'' = ''STRING''"
proof -
  have len: "(3::nat) < length type_table" by (simp add: type_table_def)
  have hit: "str_contains ''nullable_int'' (fst (type_table ! 3))"
    by (simp add: type_table_def)
  have miss: "\<forall>j < 3. \<not> str_contains ''nullable_int'' (fst (type_table ! j))"
  proof (intro allI impI)
    fix j :: nat
    assume "j < 3"
    then consider "j = 0" | "j = 1" | "j = 2" by linarith
    then show "\<not> str_contains ''nullable_int'' (fst (type_table ! j))"
      by cases (simp_all add: type_table_def)
  qed
  have none: "\<forall>k \<in> set (map fst type_table). \<not> str_contains ''uuid'' k"
    by (simp add: type_table_def)
  have "get_parsed_schema_type ''nullable_int'' = snd (type_table ! 3)"
    using get_parsed_schema_type_first_match [of "''nullable_int''"] len hit miss by blast
  moreover have "get_parsed_schema_type ''uuid'' = ''STRING''"
    using get_parsed_schema_type_first_match [of "''uuid''"] none by blast
  ultimately show ?thesis using len hit miss none by (simp add: type_table_def)
qed

lemma str_contains_map:
  assumes "str_contains s k"
  shows "str_contains (map f s) (map f k)"
proof -
  obtain p q where "s = p @ k @ q" using assms unfolding str_contains_iff by blast
  then have "map f s = map f p @ map f k @ map f q" by simp
  then show ?thesis unfolding str_contains_iff by blast
qed

text \<open>A key that occurs as written occurs all the more when letter case is ignored.\<close>

lemma occurs_ignoring_case_written: "str_contains s k \<Longrightarrow> occurs_ignoring_case s k"
  unfolding occurs_ignoring_case_def by (rule str_contains_map)

lemma lookup_type_not_default:
  assumes "(k, v) \<in> set t" and "str_contains s k" and "''STRING'' \<notin> snd ` set t"
  shows "lookup_type t s \<noteq> ''STRING''"
  using assms
proof (induction t)
  case Nil
  then show ?case by simp
next
  case (Cons kv t)
  obtain k0 v0 where kv: "kv = (k0, v0)" by (cases kv)
  show ?case
  proof (cases "str_contains s k0")
    case True
    then show ?thesis using kv Cons.prems(3) by auto
  next
    case False
    then have "(k, v) \<in> set t" using Cons.prems(1,2) kv by auto
    then have "lookup_type t s \<noteq> ''STRING''"
      using Cons.IH Cons.prems(2,3) by auto
    then show ?thesis using kv False by simp
  qed
qed

text \<open>
  C10 (as amended). The match is case-sensitive. When every key of the table that occurs
  in the input, letter case ignored, occurs there only in a different letter case, no
  key matches and the helper returns the default \<open>STRING\<close>; these are exactly the
  inputs for which it does. \<open>DATETIME\<close> and \<open>Timestamp\<close> are such inputs. In an input
  that holds one key only in a different letter case and another key as written, the
  key as written matches.
\<close>

theorem get_parsed_schema_type_case_sensitive:
  "((\<forall>k \<in> set (map fst type_table). occurs_ignoring_case s k \<longrightarrow> \<not> str_contains s k) \<longrightarrow>
      (\<forall>k \<in> set (map fst type_table). \<not> str_contains s k) \<and>
      get_parsed_schema_type s = ''STRING'') \<and>
   (get_parsed_schema_type s = ''STRING'' \<longrightarrow>
      (\<forall>k \<in> set (map fst type_table). occurs_ignoring_case s k \<longrightarrow> \<not> str_contains s k)) \<and>
   occurs_ignoring_case ''DATETIME'' ''datetime'' \<and>
   get_parsed_schema_type ''DATETIME'' = ''STRING'' \<and>
   get_parsed_schema_type ''datetime'' = ''TIMESTAMP'' \<and>
   occurs_ignoring_case ''Timestamp'' ''timestamp'' \<and>
   get_parsed_schema_type ''Timestamp'' = ''STRING'' \<and>
   get_parsed_schema_type ''timestamp'' = ''TIMESTAMP''"
proof (intro conjI impI)
  assume h: "\<forall>k \<in> set (map fst type_table). occurs_ignoring_case s k \<longrightarrow> \<not> str_contains s k"
  show none: "\<forall>k \<in> set (map fst type_table). \<not> str_contains s k"
    using h occurs_ignoring_case_written by blast
  show "get_parsed_schema_type s = ''STRING''"
    unfolding get_parsed_schema_type_def using none by (rule lookup_type_default)
next
  assume d: "get_parsed_schema_type s = ''STRING''"
  have tags: "''STRING'' \<notin> snd ` set type_table" by (simp add: type_table_def)
  have "\<not> str_contains s k" if "k \<in> set (map fst type_table)" for k
  proof
    assume c: "str_contains s k"
    from that have "k \<in> fst ` set type_table" by simp
    then obtain v where "(k, v) \<in> set type_table" by force
    then have "lookup_type type_table s \<noteq> ''STRING''"
      using c tags by (rule lookup_type_not_default)
    then show False using d by (simp add: get_parsed_schema_type_def)
  qed
  then show "\<forall>k \<in> set (map fst type_table). occurs_ignoring_case s k \<longrightarrow> \<not> str_contains s k"
    by blast
qed (simp_all add: get_parsed_schema_type_def type_table_def occurs_ignoring_case_def
      ascii_lower_def)

text \<open>
  Witness for C10. In \<open>my_DateTime_col\<close> the only keys that occur, letter case ignored,
  are \<open>datetime\<close>, \<open>time\<close> and \<open>date\<close>, none of them as written, and the result is
  \<open>STRING\<close>. \<open>Timestamp_int\<close> gives \<open>INTEGER\<close>, not \<open>STRING\<close>, so some key that occurs
  in it occurs as written.
\<close>

theorem get_parsed_schema_type_case_sensitive_witness:
  "occurs_ignoring_case ''my_DateTime_col'' ''datetime'' \<and>
   \<not> str_contains ''my_DateTime_col'' ''datetime'' \<and>
   occurs_ignoring_case ''my_DateTime_col'' ''time'' \<and>
   \<not> str_contains ''my_DateTime_col'' ''time'' \<and>
   occurs_ignoring_case ''my_DateTime_col'' ''date'' \<and>
   \<not> str_contains ''my_DateTime_col'' ''date'' \<and>
   get_parsed_schema_type ''my_DateTime_col'' = ''STRING'' \<and>
   get_parsed_schema_type ''Timestamp_int'' = ''INTEGER'' \<and>
   \<not> (\<forall>k \<in> set (map fst type_table).
        occurs_ignoring_case ''Timestamp_int'' k \<longrightarrow> \<not> str_contains ''Timestamp_int'' k)"
proof -
  let ?s = "''my_DateTime_col''"
  have occ: "occurs_ignoring_case ?s ''datetime''" "occurs_ignoring_case ?s ''time''"
    "occurs_ignoring_case ?s ''date''"
    by (simp_all add: occurs_ignoring_case_def ascii_lower_def)
  have other: "\<forall>k \<in> set (map fst type_table). occurs_ignoring_case ?s k \<longrightarrow> \<not> str_contains ?s k"
    by (simp add: type_table_def)
  have "(\<forall>k \<in> set (map fst type_table). \<not> str_contains ?s k) \<and>
      get_parsed_schema_type ?s = ''STRING''"
    using get_parsed_schema_type_case_sensitive [of ?s] other by blast
  then have res: "\<not> str_contains ?s ''datetime''" "\<not> str_contains ?s ''time''"
    "\<not> str_contains ?s ''date''" "get_parsed_schema_type ?s = ''STRING''"
    by (simp_all add: type_table_def)
  have int: "get_parsed_schema_type ''Timestamp_int'' = ''INTEGER''"
    by (simp add: get_parsed_schema_type_def type_table_def)
  have "\<not> (\<forall>k \<in> set (map fst type_table).
        occurs_ignoring_case ''Timestamp_int'' k \<longrightarrow> \<not> str_contains ''Timestamp_int'' k)"
    using get_parsed_schema_type_case_sensitive [of "''Timestamp_int''"] int by auto
  then show ?thesis using occ res int by blast
qed

text \<open>
  Counterexample to C10 as stated: \<open>Datetime\<close> holds the key \<open>datetime\<close> only in a
  different letter case, as \<open>Timestamp\<close> holds \<open>timestamp\<close>, yet the key \<open>time\<close> occurs
  in it as written and the result is \<open>TIME\<close>, not \<open>STRING\<close>.
\<close>

theorem get_parsed_schema_type_case_sensitive_counterexample:
  "occurs_ignoring_case ''Datetime'' ''datetime'' \<and>
   \<not> str_contains ''Datetime'' ''datetime'' \<and>
   str_contains ''Datetime'' ''time'' \<and>
   get_parsed_schema_type ''Datetime'' = ''TIME'' \<and>
   get_parsed_schema_type ''Datetime'' \<noteq> ''STRING''"
  by (simp add: get_parsed_schema_type_def type_table_def occurs_ignoring_case_def
      ascii_lower_def)

section \<open>The cutoff\<close>

lemma print_configuration_function_eq:
  "print_configuration_function dflt now conf =
     (if representable now (max_db_entry_age_in_days dflt conf)
      then Inr (now - max_db_entry_age_in_days dflt conf * usec_per_day)
      else Inl OverflowError)"
  by (auto simp: print_configuration_function_def timedelta_def datetime_add_def
      representable_def)

text \<open>
  C5 (as amended). When the requested age is absent or less than 1 the default is used,
  and the outcome is what an absent request gives, so the substitution adds no failure
  of its own; otherwise the requested age is used. Whenever the chosen number of days
  is representable, the cutoff is the current time minus that many days. When it is not
  (more than 999999999 days, or a date before year 1), the date arithmetic raises
  \<^verbatim>\<open>OverflowError\<close>.
\<close>

theorem resolve_cutoff:
  "((requested_age conf = None \<or> (\<exists>n. requested_age conf = Some n \<and> n < 1)) \<longrightarrow>
      max_db_entry_age_in_days dflt conf = dflt \<and>
      print_configuration_function dflt now conf = print_configuration_function dflt now None) \<and>
   (requested_age conf = Some n \<and> 1 \<le> n \<longrightarrow> max_db_entry_age_in_days dflt conf = n) \<and>
   (representable now (max_db_entry_age_in_days dflt conf) \<longrightarrow>
      print_configuration_function dflt now conf =
        Inr (now - max_db_entry_age_in_days dflt conf * usec_per_day)) \<and>
   (\<not> representable now (max_db_entry_age_in_days dflt conf) \<longrightarrow>
      print_configuration_function dflt now conf = Inl OverflowError)"
  by (auto simp: print_configuration_function_eq max_db_entry_age_in_days_def requested_age_def
      split: option.splits)

text \<open>
  Witness for C5: a request of 45 days gives the time 45 days before, a request of -5
  days gives the time 30 days (the default) before, and a request of 800000 days, which
  reaches before year 1, raises.
\<close>

theorem resolve_cutoff_witness:
  "requested_age (Some [(''maxDBEntryAgeInDays'', 45)]) = Some 45 \<and> (1::int) \<le> 45 \<and>
   representable new_year_2024 45 \<and>
   print_configuration_function 30 new_year_2024 (Some [(''maxDBEntryAgeInDays'', 45)]) =
     Inr (new_year_2024 - 45 * usec_per_day) \<and>
   requested_age (Some [(''maxDBEntryAgeInDays'', -5)]) = Some (-5) \<and> (-5::int) < 1 \<and>
   representable new_year_2024 30 \<and>
   print_configuration_function 30 new_year_2024 (Some [(''maxDBEntryAgeInDays'', -5)]) =
     Inr (new_year_2024 - 30 * usec_per_day) \<and>
   \<not> representable new_year_2024 800000 \<and>
   print_configuration_function 30 new_year_2024 (Some [(''maxDBEntryAgeInDays'', 800000)]) =
     Inl OverflowError"
proof -
  let ?big = "Some [(''maxDBEntryAgeInDays'', 800000::int)]"
  have rbig: "requested_age ?big = Some 800000" by (simp add: requested_age_def)
  have nrep: "\<not> representable new_year_2024 800000"
    by (simp add: representable_def new_year_2024_def usec_per_day_def)
  note atbig = resolve_cutoff [where conf = ?big and n = 800000 and dflt = 30
      and now = new_year_2024]
  have abig: "max_db_entry_age_in_days 30 ?big = 800000"
    using atbig rbig by simp
  have big: "print_configuration_function 30 new_year_2024 ?big = Inl OverflowError"
    using atbig abig nrep by simp
  let ?c45 = "Some [(''maxDBEntryAgeInDays'', 45::int)]"
  let ?cm5 = "Some [(''maxDBEntryAgeInDays'', -5::int)]"
  have r45: "requested_age ?c45 = Some 45" by (simp add: requested_age_def)
  have rm5: "requested_age ?cm5 = Some (-5)" by (simp add: requested_age_def)
  have rep45: "representable new_year_2024 45"
    by (simp add: representable_def new_year_2024_def usec_per_day_def)
  have rep30: "representable new_year_2024 30"
    by (simp add: representable_def new_year_2024_def usec_per_day_def)
  note at45 = resolve_cutoff [where conf = ?c45 and n = 45 and dflt = 30 and now = new_year_2024]
  note atm5 = resolve_cutoff [where conf = ?cm5 and n = 0 and dflt = 30 and now = new_year_2024]
  have a45: "max_db_entry_age_in_days 30 ?c45 = 45"
    using at45 r45 by simp
  have "print_configuration_function 30 new_year_2024 ?c45 =
        Inr (new_year_2024 - 45 * usec_per_day)"
    using at45 a45 rep45 by simp
  moreover have am5: "max_db_entry_age_in_days 30 ?cm5 = 30"
    using atm5 rm5 by simp
  moreover have "print_configuration_function 30 new_year_2024 ?cm5 =
        Inr (new_year_2024 - 30 * usec_per_day)"
    using atm5 am5 rep30 by simp
  ultimately show ?thesis using r45 rm5 rep45 rep30 nrep big by simp
qed

text \<open>
  Counterexample to C5 as stated: a request of 1000000000 days is not less than 1, yet
  the cutoff is not the current time minus that many days; \<^verbatim>\<open>timedelta\<close> raises.
\<close>

theorem resolve_cutoff_counterexample:
  "print_configuration_function 30 new_year_2024
     (Some [(''maxDBEntryAgeInDays'', 1000000000)]) \<noteq>
     Inr (new_year_2024 - 1000000000 * usec_per_day) \<and>
   print_configuration_function 30 new_year_2024
     (Some [(''maxDBEntryAgeInDays'', 1000000000)]) = Inl OverflowError"
  by (simp add: print_configuration_function_def max_db_entry_age_in_days_def requested_age_def
      timedelta_def)

section \<open>The eligibility predicate\<close>

lemma fold_filters:
  "fold (\<lambda>entry sq. sq\<lparr>sq_filters := sq_filters sq @ [entry]\<rparr>) es sq =
     sq\<lparr>sq_filters := sq_filters sq @ es\<rparr>"
  by (induction es arbitrary: sq) simp_all

lemma query_of_where:
  "q_where (query_of ob m) =
     (if keep_last ob
      then [NotIn (age_check_column ob) (keep_last_subquery ob),
            Where (Le (age_check_column ob) m)]
      else [Where (Le (age_check_column ob) m)])"
  by (auto simp: query_of_def build_query_def filter_by_def fold_filters keep_last_subquery_def
      Let_def split: option.splits)

lemma query_of_table: "q_table (query_of ob m) = airflow_db_model ob"
  by (simp add: query_of_def build_query_def filter_by_def Let_def)

text \<open>
  C1 (as amended). Without \<^verbatim>\<open>keep_last\<close> the predicate is \<open>age column \<le> cutoff\<close>. With
  \<^verbatim>\<open>keep_last\<close> it is \<open>age column NOT IN protected keys AND age column \<le> cutoff\<close>,
  where the protected keys are the maximum of \<^verbatim>\<open>DagRun.execution_date\<close>, restricted by
  the entry's filters when supplied and grouped by its group-by column when supplied.
  That is the maximum of the entry's own age-check attribute exactly for an entry over
  \<^verbatim>\<open>DagRun\<close> whose age-check column is \<^verbatim>\<open>execution_date\<close>; for such entries, and for
  all entries without \<^verbatim>\<open>keep_last\<close>, the predicate is the one the specification words.
\<close>

theorem build_query_predicate:
  "(\<not> keep_last ob \<longrightarrow>
      q_where (query_of ob cutoff) = [Where (Le (age_check_column ob) cutoff)]) \<and>
   (keep_last ob \<longrightarrow>
      q_where (query_of ob cutoff) =
        [NotIn (age_check_column ob)
           \<lparr>sq_table = DagRun, sq_max = execution_date,
            sq_filters = (case keep_last_filters ob of None \<Rightarrow> [] | Some fs \<Rightarrow> fs),
            sq_group_by = keep_last_group_by ob\<rparr>,
         Where (Le (age_check_column ob) cutoff)]) \<and>
   (\<not> keep_last ob \<or> (airflow_db_model ob = DagRun \<and> age_check_column ob = execution_date) \<longrightarrow>
      q_where (query_of ob cutoff) = spec_eligibility_predicate ob cutoff)"
  by (auto simp: query_of_where keep_last_subquery_def spec_eligibility_predicate_def)

text \<open>
  Witness for C1 on the first two entries of \<^verbatim>\<open>DATABASE_OBJECTS\<close>: the job table
  (no \<^verbatim>\<open>keep_last\<close>) and the run table (\<^verbatim>\<open>keep_last\<close>, filtered and grouped).
\<close>

theorem build_query_predicate_witness:
  "keep_last (DATABASE_OBJECTS ! 1) \<and> airflow_db_model (DATABASE_OBJECTS ! 1) = DagRun \<and>
   age_check_column (DATABASE_OBJECTS ! 1) = execution_date \<and>
   \<not> keep_last (DATABASE_OBJECTS ! 0) \<and>
   q_where (query_of (DATABASE_OBJECTS ! 0) 7) = [Where (Le ''latest_heartbeat'' 7)] \<and>
   q_where (query_of (DATABASE_OBJECTS ! 1) 7) =
     [NotIn ''execution_date''
        \<lparr>sq_table = ''dag_run'', sq_max = ''execution_date'',
         sq_filters = [Is ''external_trigger'' False], sq_group_by = Some DagId\<rparr>,
      Where (Le ''execution_date'' 7)] \<and>
   q_where (query_of (DATABASE_OBJECTS ! 1) 7) =
     spec_eligibility_predicate (DATABASE_OBJECTS ! 1) 7"
proof -
  have k1: "keep_last (DATABASE_OBJECTS ! 1)" by (simp add: DATABASE_OBJECTS_def)
  have m1: "airflow_db_model (DATABASE_OBJECTS ! 1) = DagRun"
    by (simp add: DATABASE_OBJECTS_def)
  have a1: "age_check_column (DATABASE_OBJECTS ! 1) = execution_date"
    by (simp add: DATABASE_OBJECTS_def)
  have k0: "\<not> keep_last (DATABASE_OBJECTS ! 0)"
    by (simp add: DATABASE_OBJECTS_def plain_object_def)
  note t0 = build_query_predicate [where ob = "DATABASE_OBJECTS ! 0" and cutoff = 7]
  note t1 = build_query_predicate [where ob = "DATABASE_OBJECTS ! 1" and cutoff = 7]
  have "q_where (query_of (DATABASE_OBJECTS ! 0) 7) = [Where (Le ''latest_heartbeat'' 7)]"
    using t0 k0 by (simp add: DATABASE_OBJECTS_def plain_object_def)
  moreover have "q_where (query_of (DATABASE_OBJECTS ! 1) 7) =
     [NotIn ''execution_date''
        \<lparr>sq_table = ''dag_run'', sq_max = ''execution_date'',
         sq_filters = [Is ''external_trigger'' False], sq_group_by = Some DagId\<rparr>,
      Where (Le ''execution_date'' 7)]"
    using t1 k1 by (simp add: DATABASE_OBJECTS_def DagRun_def execution_date_def)
  moreover have "q_where (query_of (DATABASE_OBJECTS ! 1) 7) =
      spec_eligibility_predicate (DATABASE_OBJECTS ! 1) 7"
    using t1 k1 m1 a1 by blast
  ultimately show ?thesis using k1 m1 a1 k0 by blast
qed

text \<open>
  Counterexample to C1 as stated: for an entry over the job table that keeps the last
  row, the protected keys are not the maximum of the entry's own age-check column
  \<^verbatim>\<open>latest_heartbeat\<close> over the job table.
\<close>

theorem build_query_predicate_counterexample:
  "q_where (query_of ((plain_object ''job'' ''latest_heartbeat'')\<lparr>keep_last := True\<rparr>) 0) \<noteq>
     spec_eligibility_predicate
       ((plain_object ''job'' ''latest_heartbeat'')\<lparr>keep_last := True\<rparr>) 0"
  by (simp add: query_of_where keep_last_subquery_def spec_eligibility_predicate_def
      plain_object_def DagRun_def)

section \<open>Unfolding the model on concrete stores\<close>

lemmas store_defs = select_all_def delete_all_def matching_def select_distinct_dag_id_def
  filter_by_def query_of_def build_query_def partition_query_def

lemmas session_defs = print_query_def query_delete_def delete_and_commit_def logging_def
  commit_def close_def no_faults_def list_dags_def py_str_def

lemmas sample_defs = sample_logs_def no_tables_def log_row_def DATABASE_OBJECTS_def
  plain_object_def module_flags_def

section \<open>Partition enumeration\<close>

text \<open>
  C3, evaluated at a log table whose rows are owned by \<open>X\<close>, by \<open>Y\<close> and by nobody:
  \<^verbatim>\<open>list_dags\<close> has four entries, not three. The NULL that \<^verbatim>\<open>SELECT DISTINCT\<close>
  returns for the rows without owner becomes the text \<^verbatim>\<open>None\<close>, a partition of its own
  that selects no row, before the unowned partition that the program appends.
\<close>

theorem list_dags_null_owner:
  "list_dags sample_logs ''log'' = Inr [Some ''X'', Some ''Y'', Some ''None'', None] \<and>
   select_all sample_logs (log_partition (Some ''None'')) = Inr [] \<and>
   select_all sample_logs (log_partition None) = Inr [log_row None 3]"
  by (simp add: log_partition_def store_defs session_defs sample_defs)

section \<open>The dry run\<close>

lemma print_query_stores:
  "working (snd (print_query flt q s)) = working s \<and>
   committed (snd (print_query flt q s)) = committed s"
  by (auto simp: print_query_def logging_def split: option.splits sum.splits)

lemma print_query_log:
  "ev \<in> set (log (snd (print_query flt q s))) \<Longrightarrow>
   ev \<in> set (log s) \<or> (\<exists>rows. ev = Entries_to_delete rows)"
  by (auto simp: print_query_def logging_def split: option.splits sum.splits)

lemma dry_delete_and_commit:
  assumes "\<not> enable_delete fl"
  shows "working (snd (delete_and_commit fl flt q s)) = working s"
    and "committed (snd (delete_and_commit fl flt q s)) = committed s \<or>
         committed (snd (delete_and_commit fl flt q s)) = working s"
    and "Performing_delete \<in> set (log (snd (delete_and_commit fl flt q s))) \<Longrightarrow>
         Performing_delete \<in> set (log s)"
  using assms print_query_stores [of flt q s] print_query_log [of Performing_delete flt q s]
  by (auto simp: delete_and_commit_def commit_def split: if_splits prod.splits option.splits)

lemma dry_for_dag:
  assumes "\<not> enable_delete fl" and "working s = committed s"
  shows "working (snd (for_dag fl flt ob m dags s)) = working s \<and>
         committed (snd (for_dag fl flt ob m dags s)) = committed s \<and>
         (Performing_delete \<in> set (log (snd (for_dag fl flt ob m dags s))) \<longrightarrow>
          Performing_delete \<in> set (log s))"
  using assms(2)
proof (induction dags arbitrary: s)
  case Nil
  then show ?case by simp
next
  case (Cons dag dags)
  let ?q = "partition_query ob m dag"
  obtain r s1 where d: "delete_and_commit fl flt ?q s = (r, s1)"
    by (cases "delete_and_commit fl flt ?q s")
  have w: "working s1 = working s"
    using dry_delete_and_commit(1) [OF assms(1), of flt ?q s] d by simp
  have c: "committed s1 = committed s"
    using dry_delete_and_commit(2) [OF assms(1), of flt ?q s] d Cons.prems by auto
  have l: "Performing_delete \<in> set (log s1) \<Longrightarrow> Performing_delete \<in> set (log s)"
    using dry_delete_and_commit(3) [OF assms(1), of flt ?q s] d by simp
  show ?case
  proof (cases r)
    case None
    have "working s1 = committed s1" using w c Cons.prems by simp
    from Cons.IH [OF this] show ?thesis using d None w c l by auto
  next
    case (Some e)
    then show ?thesis using d w c l by auto
  qed
qed

lemma dry_try_block:
  assumes "\<not> enable_delete fl" and "working s = committed s"
  shows "committed (snd (try_block fl flt ob m s)) = committed s \<and>
         (Performing_delete \<in> set (log (snd (try_block fl flt ob m s))) \<longrightarrow>
          Performing_delete \<in> set (log s))"
proof (cases "do_not_delete_by_dag_id ob")
  case True
  let ?q = "query_of ob m"
  obtain r s1 where d: "delete_and_commit fl flt ?q s = (r, s1)"
    by (cases "delete_and_commit fl flt ?q s")
  have c: "committed s1 = committed s"
    using dry_delete_and_commit(2) [OF assms(1), of flt ?q s] d assms(2) by auto
  have l: "Performing_delete \<in> set (log s1) \<Longrightarrow> Performing_delete \<in> set (log s)"
    using dry_delete_and_commit(3) [OF assms(1), of flt ?q s] d by simp
  show ?thesis using True d c l assms(1)
    by (cases r) (auto simp: try_block_def logging_def)
next
  case False
  have cs: "commit s = s" using assms(2) by (simp add: commit_def)
  show ?thesis
  proof (cases "list_dags (working s) (airflow_db_model ob)")
    case (Inl e)
    then show ?thesis using False cs by (auto simp: try_block_def)
  next
    case (Inr dags)
    obtain r s1 where d: "for_dag fl flt ob m dags s = (r, s1)"
      by (cases "for_dag fl flt ob m dags s")
    from dry_for_dag [OF assms, of flt ob m dags] d
    have "committed s1 = committed s"
      and "Performing_delete \<in> set (log s1) \<longrightarrow> Performing_delete \<in> set (log s)" by auto
    then show ?thesis using False cs Inr d assms(1)
      by (cases r) (auto simp: try_block_def logging_def)
  qed
qed


lemma dry_cleanup_function:
  assumes "\<not> enable_delete fl"
  shows "store_after (cleanup_function fl flt ob m store) = store \<and>
         Performing_delete \<notin> set (log (snd (cleanup_function fl flt ob m store)))"
proof -
  let ?s0 = "\<lparr>committed = store, working = store, log = []\<rparr>"
  obtain r s1 where t: "try_block fl flt ob m ?s0 = (r, s1)"
    by (cases "try_block fl flt ob m ?s0")
  have "committed s1 = store" and "Performing_delete \<notin> set (log s1)"
    using dry_try_block [OF assms, of ?s0 flt ob m] t by auto
  then show ?thesis using t
    by (auto simp: cleanup_function_def store_after_def close_def logging_def
        split: option.splits exn.splits)
qed

lemma wet_delete_and_commit:
  assumes "enable_delete fl" and "fst (delete_and_commit fl flt q s) = None"
  shows "delete_all (working s) q = Inr (committed (snd (delete_and_commit fl flt q s)))"
  using assms print_query_stores [of flt q s]
  by (auto simp: delete_and_commit_def query_delete_def commit_def logging_def
      split: if_splits prod.splits option.splits sum.splits)

lemma report_delete_and_commit:
  assumes "\<not> enable_delete fl" and "print_deletes fl"
    and "fst (delete_and_commit fl flt q s) = None"
  shows "\<exists>rows. select_all (working s) q = Inr rows \<and>
           log (snd (delete_and_commit fl flt q s)) = log s @ [Entries_to_delete rows]"
  using assms
  by (auto simp: delete_and_commit_def print_query_def commit_def logging_def
      split: if_splits prod.splits option.splits sum.splits)

text \<open>
  C7. With \<^verbatim>\<open>ENABLE_DELETE\<close> false, \<^verbatim>\<open>cleanup_function\<close> leaves the store as it found
  it, for every entry, fault plan and store, and never logs that it performs a delete;
  the statements run for one query (one partition, or the whole table) leave the
  transaction's view of the store unchanged and, with \<^verbatim>\<open>PRINT_DELETES\<close>, log exactly
  the rows the query selects. With \<^verbatim>\<open>ENABLE_DELETE\<close> true, a step that succeeds commits
  the store without the selected rows.
\<close>

theorem dry_run_no_mutation:
  "(\<not> enable_delete fl \<longrightarrow>
      store_after (cleanup_function fl flt ob max_date store) = store \<and>
      Performing_delete \<notin> set (log (snd (cleanup_function fl flt ob max_date store))) \<and>
      working (snd (delete_and_commit fl flt q s)) = working s) \<and>
   (\<not> enable_delete fl \<and> print_deletes fl \<and> fst (delete_and_commit fl flt q s) = None \<longrightarrow>
      (\<exists>rows. select_all (working s) q = Inr rows \<and>
         log (snd (delete_and_commit fl flt q s)) = log s @ [Entries_to_delete rows])) \<and>
   (enable_delete fl \<and> fst (delete_and_commit fl flt q s) = None \<longrightarrow>
      delete_all (working s) q = Inr (committed (snd (delete_and_commit fl flt q s))))"
  using dry_cleanup_function [of fl flt ob max_date store]
    dry_delete_and_commit(1) [of fl flt q s]
    report_delete_and_commit [of fl flt q s] wet_delete_and_commit [of fl flt q s]
  by blast

text \<open>
  Witness for C7 on the sample log table: the dry run reports the one row of partition
  \<open>X\<close> that is old enough and keeps the store; the real run deletes it.
\<close>

theorem dry_run_no_mutation_witness:
  "\<not> enable_delete dry_flags \<and> print_deletes dry_flags \<and>
   fst (delete_and_commit dry_flags no_faults (log_partition (Some ''X'')) (fresh sample_logs))
     = None \<and>
   store_after (cleanup_function dry_flags no_faults (DATABASE_OBJECTS ! 2) 100 sample_logs)
     = sample_logs \<and>
   log (snd (delete_and_commit dry_flags no_faults (log_partition (Some ''X''))
     (fresh sample_logs))) = [Entries_to_delete [log_row (Some ''X'') 1]] \<and>
   enable_delete module_flags \<and>
   fst (delete_and_commit module_flags no_faults (log_partition (Some ''X''))
     (fresh sample_logs)) = None \<and>
   delete_all sample_logs (log_partition (Some ''X'')) =
     Inr (committed (snd (delete_and_commit module_flags no_faults (log_partition (Some ''X''))
       (fresh sample_logs))))"
proof -
  let ?q = "log_partition (Some ''X'')"
  let ?s = "fresh sample_logs"
  have dry: "\<not> enable_delete dry_flags" "print_deletes dry_flags"
    by (simp_all add: dry_flags_def)
  have wet: "enable_delete module_flags" by (simp add: module_flags_def)
  have ok_dry: "fst (delete_and_commit dry_flags no_faults ?q ?s) = None"
    by (simp add: log_partition_def fresh_def dry_flags_def store_defs session_defs
        sample_defs)
  have ok_wet: "fst (delete_and_commit module_flags no_faults ?q ?s) = None"
    by (simp add: log_partition_def fresh_def store_defs session_defs sample_defs)
  have sel: "select_all sample_logs ?q = Inr [log_row (Some ''X'') 1]"
    by (simp add: log_partition_def store_defs sample_defs)
  note at_dry = dry_run_no_mutation [where fl = dry_flags and flt = no_faults
      and ob = "DATABASE_OBJECTS ! 2" and max_date = 100 and store = sample_logs
      and q = ?q and s = ?s]
  note at_wet = dry_run_no_mutation [where fl = module_flags and flt = no_faults
      and ob = "DATABASE_OBJECTS ! 2" and max_date = 100 and store = sample_logs
      and q = ?q and s = ?s]
  have "store_after (cleanup_function dry_flags no_faults (DATABASE_OBJECTS ! 2) 100
      sample_logs) = sample_logs"
    using at_dry dry by blast
  moreover have "log (snd (delete_and_commit dry_flags no_faults ?q ?s)) =
      [Entries_to_delete [log_row (Some ''X'') 1]]"
    using at_dry dry ok_dry sel by (auto simp: fresh_def)
  moreover have "delete_all sample_logs ?q =
      Inr (committed (snd (delete_and_commit module_flags no_faults ?q ?s)))"
    using at_wet wet ok_wet by (auto simp: fresh_def)
  ultimately show ?thesis using dry wet ok_dry ok_wet by blast
qed

section \<open>A table that does not exist\<close>

lemma matching_missing: "d (q_table q) = None \<Longrightarrow> matching d q = Inl ProgrammingError"
  by (simp add: matching_def)

lemma delete_and_commit_missing:
  assumes "working s (q_table q) = None"
  shows "delete_and_commit fl no_faults q s =
     (if print_deletes fl then (Some ProgrammingError, s)
      else if enable_delete fl then (Some ProgrammingError, logging Performing_delete s)
      else (None, commit s))"
  using assms
  by (simp add: delete_and_commit_def print_query_def query_delete_def select_all_def
      delete_all_def matching_missing no_faults_def logging_def)

lemma cleanup_function_missing:
  assumes "store (airflow_db_model ob) = None"
  shows "fst (cleanup_function fl no_faults ob m store) = None"
    and "store_after (cleanup_function fl no_faults ob m store) = store"
    and "enable_delete fl \<or> print_deletes fl \<or> \<not> do_not_delete_by_dag_id ob \<Longrightarrow>
         Not_present_skipping (airflow_db_model ob)
           \<in> set (log (snd (cleanup_function fl no_faults ob m store)))"
proof -
  let ?s0 = "\<lparr>committed = store, working = store, log = []\<rparr>"
  have cs: "commit ?s0 = ?s0" by (simp add: commit_def)
  have w: "working ?s0 (q_table (query_of ob m)) = None"
    using assms by (simp add: query_of_table)
  have ld: "list_dags store (airflow_db_model ob) = Inl ProgrammingError"
    using assms by (simp add: list_dags_def select_distinct_dag_id_def)
  have t: "try_block fl no_faults ob m ?s0 =
      (if do_not_delete_by_dag_id ob
       then (if print_deletes fl then (Some ProgrammingError, ?s0)
             else if enable_delete fl then (Some ProgrammingError, logging Performing_delete ?s0)
             else (None, logging Finished (logging Delete_disabled ?s0)))
       else (Some ProgrammingError, ?s0))"
    using ld by (simp add: try_block_def delete_and_commit_missing [OF w] cs)
  show "fst (cleanup_function fl no_faults ob m store) = None"
    by (simp add: cleanup_function_def t)
  show "store_after (cleanup_function fl no_faults ob m store) = store"
    by (simp add: cleanup_function_def t store_after_def close_def logging_def)
  show "Not_present_skipping (airflow_db_model ob)
           \<in> set (log (snd (cleanup_function fl no_faults ob m store)))"
    if "enable_delete fl \<or> print_deletes fl \<or> \<not> do_not_delete_by_dag_id ob"
    using that by (auto simp: cleanup_function_def t close_def logging_def)
qed

lemma run_cleanups_append:
  "run_cleanups fl flt (xs @ ys) m d =
     (fst (run_cleanups fl flt xs m d) @
        fst (run_cleanups fl flt ys m (snd (run_cleanups fl flt xs m d))),
      snd (run_cleanups fl flt ys m (snd (run_cleanups fl flt xs m d))))"
  by (induction xs arbitrary: d) (simp_all add: Let_def)


lemma matching_present: "matching d q = Inr p \<Longrightarrow> d (q_table q) \<noteq> None"
  by (auto simp: matching_def split: option.splits)

lemma delete_all_absent:
  assumes "delete_all d q = Inr d1" and "d t = None"
  shows "d1 t = None"
proof -
  obtain p where p: "matching d q = Inr p" and
    d1: "d1 = d(q_table q \<mapsto> filter (\<lambda>r. \<not> p r) (the (d (q_table q))))"
    using assms(1) by (auto simp: delete_all_def split: sum.splits)
  have "t \<noteq> q_table q" using matching_present [OF p] assms(2) by auto
  then show ?thesis using d1 assms(2) by simp
qed

lemma absent_query_delete:
  assumes "absent t s"
  shows "absent t (snd (query_delete flt q s))"
  using assms delete_all_absent [of "working s" q _ t]
  by (auto simp: query_delete_def absent_def split: option.splits sum.splits)

lemma absent_logging: "absent t s \<Longrightarrow> absent t (logging ev s)"
  by (simp add: absent_def logging_def)

lemma absent_commit: "absent t s \<Longrightarrow> absent t (commit s)"
  by (simp add: absent_def commit_def)

lemma absent_delete_and_commit:
  assumes "absent t s"
  shows "absent t (snd (delete_and_commit fl flt q s))"
proof -
  let ?p = "if print_deletes fl then print_query flt q s else (None, s)"
  obtain r s1 where p: "?p = (r, s1)" by (cases ?p)
  have s1: "absent t s1"
    using print_query_stores [of flt q s] p assms
    by (auto simp: absent_def split: if_splits)
  let ?d = "if enable_delete fl then query_delete flt q (logging Performing_delete s1)
            else (None, s1)"
  obtain r2 s2 where d: "?d = (r2, s2)" by (cases ?d)
  have s2: "absent t s2"
    using absent_query_delete [OF absent_logging [OF s1], of flt q Performing_delete] s1 d
    by (auto split: if_splits)
  have "delete_and_commit fl flt q s =
      (case r of Some e \<Rightarrow> (Some e, s1)
       | None \<Rightarrow> (case r2 of Some e \<Rightarrow> (Some e, s2) | None \<Rightarrow> (None, commit s2)))"
    unfolding delete_and_commit_def p
    by (cases r) (simp_all add: d split: option.splits)
  then show ?thesis
    using s1 s2 absent_commit [OF s2] by (cases r; cases r2) simp_all
qed

lemma absent_for_dag:
  "absent t s \<Longrightarrow> absent t (snd (for_dag fl flt ob m dags s))"
proof (induction dags arbitrary: s)
  case Nil
  then show ?case by simp
next
  case (Cons dag dags)
  let ?q = "partition_query ob m dag"
  obtain r s1 where d: "delete_and_commit fl flt ?q s = (r, s1)"
    by (cases "delete_and_commit fl flt ?q s")
  have s1: "absent t s1" using absent_delete_and_commit [OF Cons.prems, of fl flt ?q] d by simp
  show ?case using d s1 Cons.IH [OF s1] by (cases r) auto
qed

lemma absent_try_block:
  assumes "absent t s"
  shows "absent t (snd (try_block fl flt ob m s))"
proof -
  let ?body = "if do_not_delete_by_dag_id ob
            then delete_and_commit fl flt (query_of ob m) s
            else
              (case list_dags (working (commit s)) (airflow_db_model ob) of
                 Inl e \<Rightarrow> (Some e, commit s)
               | Inr dags \<Rightarrow> for_dag fl flt ob m dags (commit s))"
  have c: "absent t (commit s)" using assms by (simp add: absent_def commit_def)
  have body: "absent t (snd ?body)"
    using absent_delete_and_commit [OF assms, of fl flt "query_of ob m"]
      absent_for_dag [OF c, of fl flt ob m] c
    by (simp split: sum.splits)
  obtain r s1 where b: "?body = (r, s1)" by (cases ?body)
  then have s1: "absent t s1" using body by simp
  have "try_block fl flt ob m s =
      (case r of Some e \<Rightarrow> (Some e, s1)
       | None \<Rightarrow> (None, logging Finished
                   (if \<not> enable_delete fl then logging Delete_disabled s1 else s1)))"
    unfolding try_block_def b by (simp split: option.splits)
  then show ?thesis using s1 by (cases r) (simp_all add: absent_logging)
qed

lemma absent_cleanup_function:
  assumes "store t = None"
  shows "store_after (cleanup_function fl flt ob m store) t = None"
proof -
  let ?s0 = "\<lparr>committed = store, working = store, log = []\<rparr>"
  have "absent t ?s0" using assms by (simp add: absent_def)
  from absent_try_block [OF this, of fl flt ob m]
  show ?thesis
    by (auto simp: cleanup_function_def store_after_def close_def logging_def absent_def
        split: prod.splits option.splits exn.splits)
qed

lemma absent_run_cleanups:
  "store t = None \<Longrightarrow> snd (run_cleanups fl flt obs m store) t = None"
proof (induction obs arbitrary: store)
  case Nil
  then show ?case by simp
next
  case (Cons ob obs)
  have "store_after (cleanup_function fl flt ob m store) t = None"
    using Cons.prems absent_cleanup_function [of store t fl flt ob m] by simp
  then have "snd (run_cleanups fl flt obs m (store_after (cleanup_function fl flt ob m store))) t
      = None"
    using Cons.IH [of "store_after (cleanup_function fl flt ob m store)"] by simp
  then show ?case by (simp add: Let_def)
qed

text \<open>
  C6. When the table of an entry does not exist (and the store fails in no other way),
  \<^verbatim>\<open>cleanup_function\<close> returns without raising and leaves the store as it is; it logs
  that the model is not present in the metadata (with \<^verbatim>\<open>logging.error\<close>) whenever it
  sends a statement to the table, which it does unless the entry is not partitioned and
  both \<^verbatim>\<open>ENABLE_DELETE\<close> and \<^verbatim>\<open>PRINT_DELETES\<close> are off. The other entries of the run
  are processed and leave the store exactly as they would had the entry not been
  configured.
\<close>

theorem missing_table_skipped:
  assumes "store (airflow_db_model ob) = None"
  shows "fst (cleanup_function fl no_faults ob m store) = None \<and>
    store_after (cleanup_function fl no_faults ob m store) = store \<and>
    (enable_delete fl \<or> print_deletes fl \<or> \<not> do_not_delete_by_dag_id ob \<longrightarrow>
       Not_present_skipping (airflow_db_model ob)
         \<in> set (log (snd (cleanup_function fl no_faults ob m store)))) \<and>
    run_cleanups fl no_faults (pre @ ob # post) m store =
      (fst (run_cleanups fl no_faults pre m store) @ None #
         fst (run_cleanups fl no_faults post m (snd (run_cleanups fl no_faults pre m store))),
       snd (run_cleanups fl no_faults (pre @ post) m store))"
proof -
  let ?d1 = "snd (run_cleanups fl no_faults pre m store)"
  have d1: "?d1 (airflow_db_model ob) = None"
    using assms absent_run_cleanups [of store "airflow_db_model ob" fl no_faults pre m] by simp
  have f: "fst (cleanup_function fl no_faults ob m ?d1) = None"
    using d1 cleanup_function_missing(1) [of ?d1 ob fl m] by simp
  have g: "store_after (cleanup_function fl no_faults ob m ?d1) = ?d1"
    using d1 cleanup_function_missing(2) [of ?d1 ob fl m] by simp
  have step: "run_cleanups fl no_faults (ob # post) m ?d1 =
      (None # fst (run_cleanups fl no_faults post m ?d1),
       snd (run_cleanups fl no_faults post m ?d1))"
    by (simp add: Let_def f g)
  have "run_cleanups fl no_faults (pre @ ob # post) m store =
      (fst (run_cleanups fl no_faults pre m store) @ None #
         fst (run_cleanups fl no_faults post m ?d1),
       snd (run_cleanups fl no_faults (pre @ post) m store))"
    unfolding run_cleanups_append [of fl no_faults pre "ob # post"]
      run_cleanups_append [of fl no_faults pre post] step by simp
  moreover have "fst (cleanup_function fl no_faults ob m store) = None"
    using assms cleanup_function_missing(1) [of store ob fl m] by simp
  moreover have "store_after (cleanup_function fl no_faults ob m store) = store"
    using assms cleanup_function_missing(2) [of store ob fl m] by simp
  moreover have "enable_delete fl \<or> print_deletes fl \<or> \<not> do_not_delete_by_dag_id ob \<longrightarrow>
       Not_present_skipping (airflow_db_model ob)
         \<in> set (log (snd (cleanup_function fl no_faults ob m store)))"
    using assms cleanup_function_missing(3) [of store ob fl m] by blast
  ultimately show ?thesis by blast
qed

text \<open>
  Witness for C6: the sample store has a log table and no job table. The job entry is
  skipped with the log line, and the log entry after it still deletes its old rows.
\<close>

theorem missing_table_skipped_witness:
  "sample_logs (airflow_db_model (DATABASE_OBJECTS ! 0)) = None \<and>
   fst (cleanup_function module_flags no_faults (DATABASE_OBJECTS ! 0) 100 sample_logs) = None \<and>
   store_after (cleanup_function module_flags no_faults (DATABASE_OBJECTS ! 0) 100 sample_logs)
     = sample_logs \<and>
   Not_present_skipping ''job''
     \<in> set (log (snd (cleanup_function module_flags no_faults (DATABASE_OBJECTS ! 0) 100
          sample_logs))) \<and>
   fst (run_cleanups module_flags no_faults [DATABASE_OBJECTS ! 0, DATABASE_OBJECTS ! 2] 100
     sample_logs) = [None, None] \<and>
   snd (run_cleanups module_flags no_faults [DATABASE_OBJECTS ! 0, DATABASE_OBJECTS ! 2] 100
     sample_logs) ''log'' = Some [log_row (Some ''X'') 900]"
proof -
  have missing: "sample_logs (airflow_db_model (DATABASE_OBJECTS ! 0)) = None"
    by (simp add: sample_defs)
  have flag: "enable_delete module_flags" by (simp add: module_flags_def)
  have name: "airflow_db_model (DATABASE_OBJECTS ! 0) = ''job''" by (simp add: sample_defs)
  have other: "cleanup_function module_flags no_faults (DATABASE_OBJECTS ! 2) 100 sample_logs
      = (None, \<lparr>committed = sample_logs(''log'' \<mapsto> [log_row (Some ''X'') 900]),
                working = sample_logs(''log'' \<mapsto> [log_row (Some ''X'') 900]),
                log = [Performing_delete, Performing_delete, Performing_delete,
                       Performing_delete, Finished]\<rparr>)"
    by (simp add: cleanup_function_def try_block_def store_defs session_defs sample_defs)
  note skipped = missing_table_skipped [where store = sample_logs
      and ob = "DATABASE_OBJECTS ! 0" and fl = module_flags and m = 100
      and pre = "[]" and post = "[DATABASE_OBJECTS ! 2]", OF missing]
  have run: "run_cleanups module_flags no_faults [DATABASE_OBJECTS ! 0, DATABASE_OBJECTS ! 2]
      100 sample_logs = ([None, None], sample_logs(''log'' \<mapsto> [log_row (Some ''X'') 900]))"
    using skipped by (simp add: other store_after_def Let_def)
  have one: "fst (cleanup_function module_flags no_faults (DATABASE_OBJECTS ! 0) 100
        sample_logs) = None \<and>
      store_after (cleanup_function module_flags no_faults (DATABASE_OBJECTS ! 0) 100
        sample_logs) = sample_logs \<and>
      Not_present_skipping ''job''
        \<in> set (log (snd (cleanup_function module_flags no_faults (DATABASE_OBJECTS ! 0) 100
             sample_logs)))"
    using skipped flag name by metis
  show ?thesis unfolding run using one missing by simp
qed

section \<open>A failure in the partition loop\<close>

lemma for_dag_append:
  "for_dag fl flt ob m (xs @ ys) s =
     (case for_dag fl flt ob m xs s of
        (Some e, s1) \<Rightarrow> (Some e, s1)
      | (None, s1) \<Rightarrow> for_dag fl flt ob m ys s1)"
  by (induction xs arbitrary: s) (auto split: prod.splits option.splits)

lemma delete_and_commit_fault:
  assumes "flt q = Some e" and "enable_delete fl"
  shows "fst (delete_and_commit fl flt q s) = Some e"
    and "committed (snd (delete_and_commit fl flt q s)) = committed s"
  using assms
  by (simp_all add: delete_and_commit_def print_query_def query_delete_def logging_def)

lemma delete_and_commit_ok:
  assumes "flt q = None" and "enable_delete fl" and "delete_all (working s) q = Inr d1"
  shows "fst (delete_and_commit fl flt q s) = None"
    and "working (snd (delete_and_commit fl flt q s)) = d1"
    and "committed (snd (delete_and_commit fl flt q s)) = d1"
proof -
  obtain p where p: "matching (working s) q = Inr p"
    using assms(3) by (auto simp: delete_all_def split: sum.splits)
  have pq: "print_query flt q s =
      (None, logging (Entries_to_delete (filter p (the (working s (q_table q))))) s)"
    using assms(1) p by (simp add: print_query_def select_all_def)
  have qd: "query_delete flt q s' = (None, s'\<lparr>working := d1\<rparr>)"
    if "working s' = working s" for s'
    using that assms(1,3) by (simp add: query_delete_def)
  have eq: "delete_and_commit fl flt q s =
      (if print_deletes fl
       then (None, commit ((logging Performing_delete
               (logging (Entries_to_delete (filter p (the (working s (q_table q))))) s))
               \<lparr>working := d1\<rparr>))
       else (None, commit ((logging Performing_delete s)\<lparr>working := d1\<rparr>)))"
    using assms(2) by (simp add: delete_and_commit_def pq qd logging_def)
  show "fst (delete_and_commit fl flt q s) = None" by (simp add: eq)
  show "working (snd (delete_and_commit fl flt q s)) = d1" by (simp add: eq commit_def)
  show "committed (snd (delete_and_commit fl flt q s)) = d1" by (simp add: eq commit_def)
qed

lemma for_dag_ok:
  assumes "enable_delete fl"
  shows "\<forall>d \<in> set dags. flt (partition_query ob m d) = None \<Longrightarrow>
     delete_partitions ob m dags (working s) = Inr d1 \<Longrightarrow> committed s = working s \<Longrightarrow>
     fst (for_dag fl flt ob m dags s) = None \<and>
     working (snd (for_dag fl flt ob m dags s)) = d1 \<and>
     committed (snd (for_dag fl flt ob m dags s)) = d1"
proof (induction dags arbitrary: s)
  case Nil
  then show ?case by simp
next
  case (Cons dag dags)
  let ?q = "partition_query ob m dag"
  obtain d0 where d0: "delete_all (working s) ?q = Inr d0"
    and rest: "delete_partitions ob m dags d0 = Inr d1"
    using Cons.prems(2) by (auto split: sum.splits)
  have nf: "flt ?q = None" using Cons.prems(1) by simp
  obtain r s1 where step: "delete_and_commit fl flt ?q s = (r, s1)"
    by (cases "delete_and_commit fl flt ?q s")
  have r: "r = None" and w: "working s1 = d0" and c: "committed s1 = d0"
    using delete_and_commit_ok [of flt ?q fl s d0] nf assms d0 step by simp_all
  have "fst (for_dag fl flt ob m dags s1) = None \<and>
     working (snd (for_dag fl flt ob m dags s1)) = d1 \<and>
     committed (snd (for_dag fl flt ob m dags s1)) = d1"
    using Cons.IH [of s1] Cons.prems(1) rest w c by simp
  then show ?case using step r by simp
qed

lemma for_dag_fault:
  assumes "enable_delete fl"
    and "\<forall>d \<in> set pre. flt (partition_query ob m d) = None"
    and "flt (partition_query ob m dag) = Some e"
    and "delete_partitions ob m pre (working s) = Inr d1"
    and "committed s = working s"
  shows "fst (for_dag fl flt ob m (pre @ dag # post) s) = Some e"
    and "committed (snd (for_dag fl flt ob m (pre @ dag # post) s)) = d1"
proof -
  obtain r s1 where pre: "for_dag fl flt ob m pre s = (r, s1)"
    by (cases "for_dag fl flt ob m pre s")
  have r: "r = None" and c: "committed s1 = d1"
    using for_dag_ok [of fl pre flt ob m s d1] assms(1,2,4,5) pre by simp_all
  let ?q = "partition_query ob m dag"
  obtain r2 s2 where step: "delete_and_commit fl flt ?q s1 = (r2, s2)"
    by (cases "delete_and_commit fl flt ?q s1")
  have r2: "r2 = Some e" and c2: "committed s2 = d1"
    using delete_and_commit_fault [of flt ?q e fl s1] assms(1,3) step c by simp_all
  have "for_dag fl flt ob m (pre @ dag # post) s = (Some e, s2)"
    by (simp add: for_dag_append pre r step r2)
  then show "fst (for_dag fl flt ob m (pre @ dag # post) s) = Some e"
    and "committed (snd (for_dag fl flt ob m (pre @ dag # post) s)) = d1"
    using c2 by simp_all
qed

lemma cleanup_function_store:
  "store_after (cleanup_function fl flt ob m store) =
     committed (snd (try_block fl flt ob m (fresh store)))"
  by (auto simp: cleanup_function_def store_after_def fresh_def close_def logging_def
      split: prod.splits option.splits exn.splits)

lemma cleanup_function_raised:
  "fst (cleanup_function fl flt ob m store) =
     (case fst (try_block fl flt ob m (fresh store)) of
        Some ProgrammingError \<Rightarrow> None
      | r \<Rightarrow> r)"
  by (auto simp: cleanup_function_def fresh_def split: prod.splits option.splits exn.splits)

lemma try_block_partitioned:
  assumes "\<not> do_not_delete_by_dag_id ob"
    and "list_dags store (airflow_db_model ob) = Inr dags"
  shows "fst (try_block fl flt ob m (fresh store)) = fst (for_dag fl flt ob m dags (fresh store))"
    and "committed (snd (try_block fl flt ob m (fresh store))) =
         committed (snd (for_dag fl flt ob m dags (fresh store)))"
proof -
  have cs: "commit (fresh store) = fresh store" by (simp add: commit_def fresh_def)
  have w: "working (fresh store) = store" by (simp add: fresh_def)
  obtain r s1 where f: "for_dag fl flt ob m dags (fresh store) = (r, s1)"
    by (cases "for_dag fl flt ob m dags (fresh store)")
  show "fst (try_block fl flt ob m (fresh store)) = fst (for_dag fl flt ob m dags (fresh store))"
    using assms by (cases r) (simp_all add: try_block_def cs w f)
  show "committed (snd (try_block fl flt ob m (fresh store))) =
         committed (snd (for_dag fl flt ob m dags (fresh store)))"
    using assms by (cases r) (simp_all add: try_block_def cs w f logging_def)
qed

text \<open>
  C4 (as amended). In a partitioned entry every partition is deleted and committed
  before the next one is looked at. When the statement of one partition fails, the
  deletions of the partitions before it stay committed: the store that is left is the
  store after exactly those partitions. The failure ends the loop, so the partitions
  after it are not processed; a \<^verbatim>\<open>ProgrammingError\<close> is logged and swallowed, any other
  exception leaves the function. When no statement fails, all partitions are processed.
\<close>

theorem failure_ends_partition_loop:
  "(\<not> do_not_delete_by_dag_id ob \<and> enable_delete fl \<and>
    list_dags store (airflow_db_model ob) = Inr (pre @ dag # post) \<and>
    (\<forall>d \<in> set pre. flt (partition_query ob m d) = None) \<and>
    flt (partition_query ob m dag) = Some e \<and>
    delete_partitions ob m pre store = Inr d1 \<longrightarrow>
      store_after (cleanup_function fl flt ob m store) = d1 \<and>
      fst (cleanup_function fl flt ob m store) =
        (if e = ProgrammingError then None else Some e)) \<and>
   (\<not> do_not_delete_by_dag_id ob \<and> enable_delete fl \<and>
    list_dags store (airflow_db_model ob) = Inr dags \<and>
    (\<forall>d \<in> set dags. flt (partition_query ob m d) = None) \<and>
    delete_partitions ob m dags store = Inr d2 \<longrightarrow>
      store_after (cleanup_function fl flt ob m store) = d2 \<and>
      fst (cleanup_function fl flt ob m store) = None)"
proof (intro conjI impI)
  assume a: "\<not> do_not_delete_by_dag_id ob \<and> enable_delete fl \<and>
    list_dags store (airflow_db_model ob) = Inr (pre @ dag # post) \<and>
    (\<forall>d \<in> set pre. flt (partition_query ob m d) = None) \<and>
    flt (partition_query ob m dag) = Some e \<and>
    delete_partitions ob m pre store = Inr d1"
  have w: "working (fresh store) = store" "committed (fresh store) = working (fresh store)"
    by (simp_all add: fresh_def)
  have f: "fst (for_dag fl flt ob m (pre @ dag # post) (fresh store)) = Some e"
    and c: "committed (snd (for_dag fl flt ob m (pre @ dag # post) (fresh store))) = d1"
    using for_dag_fault [of fl pre flt ob m dag e "fresh store" d1 post] a w by simp_all
  show "store_after (cleanup_function fl flt ob m store) = d1"
    using a c by (simp add: cleanup_function_store try_block_partitioned(2))
  show "fst (cleanup_function fl flt ob m store) =
        (if e = ProgrammingError then None else Some e)"
    using a f by (cases e) (simp_all add: cleanup_function_raised try_block_partitioned(1))
next
  assume a: "\<not> do_not_delete_by_dag_id ob \<and> enable_delete fl \<and>
    list_dags store (airflow_db_model ob) = Inr dags \<and>
    (\<forall>d \<in> set dags. flt (partition_query ob m d) = None) \<and>
    delete_partitions ob m dags store = Inr d2"
  have w: "working (fresh store) = store" "committed (fresh store) = working (fresh store)"
    by (simp_all add: fresh_def)
  have f: "fst (for_dag fl flt ob m dags (fresh store)) = None \<and>
     working (snd (for_dag fl flt ob m dags (fresh store))) = d2 \<and>
     committed (snd (for_dag fl flt ob m dags (fresh store))) = d2"
    using for_dag_ok [of fl dags flt ob m "fresh store" d2] a w by simp
  show "store_after (cleanup_function fl flt ob m store) = d2"
    using a f by (simp add: cleanup_function_store try_block_partitioned(2))
  show "fst (cleanup_function fl flt ob m store) = None"
    using a f by (simp add: cleanup_function_raised try_block_partitioned(1))
qed

text \<open>
  Witness for C4 on the sample log table, with a lost connection at partition \<open>Y\<close>:
  the deletion in partition \<open>X\<close> stays, and nothing after \<open>Y\<close> is deleted.
\<close>

theorem failure_ends_partition_loop_witness:
  "\<not> do_not_delete_by_dag_id (DATABASE_OBJECTS ! 2) \<and> enable_delete module_flags \<and>
   list_dags sample_logs (airflow_db_model (DATABASE_OBJECTS ! 2)) =
     Inr ([Some ''X''] @ Some ''Y'' # [Some ''None'', None]) \<and>
   fault_on_Y (partition_query (DATABASE_OBJECTS ! 2) 100 (Some ''X'')) = None \<and>
   fault_on_Y (partition_query (DATABASE_OBJECTS ! 2) 100 (Some ''Y'')) = Some OperationalError \<and>
   delete_partitions (DATABASE_OBJECTS ! 2) 100 [Some ''X''] sample_logs = Inr after_X \<and>
   store_after (cleanup_function module_flags fault_on_Y (DATABASE_OBJECTS ! 2) 100 sample_logs)
     = after_X \<and>
   fst (cleanup_function module_flags fault_on_Y (DATABASE_OBJECTS ! 2) 100 sample_logs)
     = Some OperationalError \<and>
   delete_partitions (DATABASE_OBJECTS ! 2) 100 [Some ''X'', Some ''Y'', Some ''None'', None]
     sample_logs = Inr (sample_logs(''log'' \<mapsto> [log_row (Some ''X'') 900])) \<and>
   store_after (cleanup_function module_flags no_faults (DATABASE_OBJECTS ! 2) 100 sample_logs)
     = sample_logs(''log'' \<mapsto> [log_row (Some ''X'') 900])"
proof -
  let ?ob = "DATABASE_OBJECTS ! 2"
  have part: "\<not> do_not_delete_by_dag_id ?ob" by (simp add: sample_defs)
  have flag: "enable_delete module_flags" by (simp add: module_flags_def)
  have dags: "list_dags sample_logs (airflow_db_model ?ob) =
      Inr ([Some ''X''] @ Some ''Y'' # [Some ''None'', None])"
    by (simp add: store_defs session_defs sample_defs)
  have okX: "fault_on_Y (partition_query ?ob 100 (Some ''X'')) = None"
    by (simp add: fault_on_Y_def fail_on_def log_partition_def store_defs sample_defs)
  have koY: "fault_on_Y (partition_query ?ob 100 (Some ''Y'')) = Some OperationalError"
    by (simp add: fault_on_Y_def fail_on_def log_partition_def)
  have delX: "delete_partitions ?ob 100 [Some ''X''] sample_logs = Inr after_X"
    by (simp add: after_X_def store_defs sample_defs)
  have delAll: "delete_partitions ?ob 100 [Some ''X'', Some ''Y'', Some ''None'', None]
      sample_logs = Inr (sample_logs(''log'' \<mapsto> [log_row (Some ''X'') 900]))"
    by (simp add: store_defs sample_defs)
  note faulty = failure_ends_partition_loop [where ob = ?ob and fl = module_flags
      and store = sample_logs and pre = "[Some ''X'']" and dag = "Some ''Y''"
      and post = "[Some ''None'', None]" and flt = fault_on_Y and m = 100
      and e = OperationalError and ?d1.0 = after_X]
  note sound = failure_ends_partition_loop [where ob = ?ob and fl = module_flags
      and store = sample_logs and flt = no_faults and m = 100
      and dags = "[Some ''X'', Some ''Y'', Some ''None'', None]"
      and ?d2.0 = "sample_logs(''log'' \<mapsto> [log_row (Some ''X'') 900])"]
  have "store_after (cleanup_function module_flags fault_on_Y ?ob 100 sample_logs) = after_X \<and>
      fst (cleanup_function module_flags fault_on_Y ?ob 100 sample_logs) = Some OperationalError"
    using faulty part flag dags okX koY delX by simp
  moreover have "store_after (cleanup_function module_flags no_faults ?ob 100 sample_logs)
      = sample_logs(''log'' \<mapsto> [log_row (Some ''X'') 900])"
    using sound part flag dags delAll by (simp add: no_faults_def)
  ultimately show ?thesis using part flag dags okX koY delX delAll by blast
qed

text \<open>
  Counterexample to C4 as stated: after the failure at partition \<open>Y\<close> the unowned
  partition is never processed. Its row is old enough and is still selected by the
  partition's query in the store that is left, and only two deletes were attempted.
\<close>

theorem failure_ends_partition_loop_counterexample:
  "fst (cleanup_function module_flags fault_on_Y (DATABASE_OBJECTS ! 2) 100 sample_logs)
     = Some OperationalError \<and>
   store_after (cleanup_function module_flags fault_on_Y (DATABASE_OBJECTS ! 2) 100 sample_logs)
     = after_X \<and>
   select_all after_X (log_partition None) = Inr [log_row None 3] \<and>
   log (snd (cleanup_function module_flags fault_on_Y (DATABASE_OBJECTS ! 2) 100 sample_logs))
     = [Performing_delete, Performing_delete]"
  by (simp add: cleanup_function_def try_block_def store_after_def fault_on_Y_def fail_on_def
      after_X_def log_partition_def store_defs session_defs sample_defs)

section \<open>Keeping the last run, and idempotence\<close>

lemma set_map_filter_id: "set (List.map_filter (\<lambda>v. v) vs) = {t. Some t \<in> set vs}"
  by (induction vs) (auto simp: List.map_filter_simps split: option.splits)

lemma sql_max_eq_Some:
  "sql_max vs = Some t \<longleftrightarrow> Some t \<in> set vs \<and> (\<forall>t'. Some t' \<in> set vs \<longrightarrow> t' \<le> t)"
proof (cases "List.map_filter (\<lambda>v. v) vs")
  case Nil
  then have "{t. Some t \<in> set vs} = {}" using set_map_filter_id [of vs] by simp
  then show ?thesis using Nil by (auto simp: sql_max_def)
next
  case (Cons x xs)
  have s: "set (x # xs) = {t. Some t \<in> set vs}" using set_map_filter_id [of vs] Cons by simp
  have m: "sql_max vs = Some (Max (set (x # xs)))"
    using Cons Max.set_eq_fold [of x xs] by (simp add: sql_max_def)
  have fin: "finite (set (x # xs))" "set (x # xs) \<noteq> {}" by simp_all
  show ?thesis
  proof
    assume "sql_max vs = Some t"
    then have t: "t = Max (set (x # xs))" using m by simp
    have "t \<in> set (x # xs)" unfolding t using fin by (rule Max_in)
    moreover have "\<forall>t' \<in> set (x # xs). t' \<le> t" unfolding t using fin(1) by simp
    ultimately show "Some t \<in> set vs \<and> (\<forall>t'. Some t' \<in> set vs \<longrightarrow> t' \<le> t)"
      unfolding s by blast
  next
    assume a: "Some t \<in> set vs \<and> (\<forall>t'. Some t' \<in> set vs \<longrightarrow> t' \<le> t)"
    then have "t \<in> set (x # xs)" and "\<forall>t' \<in> set (x # xs). t' \<le> t" unfolding s by blast+
    then have "Max (set (x # xs)) = t" using fin(1) by (intro Max_eqI) auto
    then show "sql_max vs = Some t" using m by simp
  qed
qed

lemma eval_subquery_Some:
  "Some t \<in> set (eval_subquery runs sq) \<longleftrightarrow>
     (\<exists>r \<in> set (filter (passes (sq_filters sq)) runs).
        sql_max (map (\<lambda>r. map_of (stamps r) (sq_max sq))
          (filter (same_group (sq_group_by sq) r) (filter (passes (sq_filters sq)) runs)))
        = Some t)"
proof (cases "sq_group_by sq")
  case None
  let ?rs = "filter (passes (sq_filters sq)) runs"
  have ne: "sql_max (map (\<lambda>r. map_of (stamps r) (sq_max sq)) ?rs) = Some t \<Longrightarrow> ?rs \<noteq> []"
    by (auto simp: sql_max_eq_Some filter_empty_conv)
  have all: "filter (same_group (sq_group_by sq) r) ?rs = ?rs" for r
    using None by (simp add: same_group_def)
  have "Some t \<in> set (eval_subquery runs sq) \<longleftrightarrow>
      sql_max (map (\<lambda>r. map_of (stamps r) (sq_max sq)) ?rs) = Some t"
    using None by (auto simp: eval_subquery_def Let_def)
  also have "\<dots> \<longleftrightarrow> (\<exists>r \<in> set ?rs.
      sql_max (map (\<lambda>r. map_of (stamps r) (sq_max sq)) ?rs) = Some t)"
    using ne by (cases ?rs) auto
  finally show ?thesis unfolding all .
next
  case (Some g)
  let ?rs = "filter (passes (sq_filters sq)) runs"
  let ?mx = "\<lambda>k. sql_max (map (\<lambda>r. map_of (stamps r) (sq_max sq))
      (filter (\<lambda>r. cell r g = k) ?rs))"
  have grp: "filter (same_group (sq_group_by sq) r) ?rs = filter (\<lambda>r'. cell r' g = cell r g) ?rs"
    for r
    using Some by (simp add: same_group_def)
  have "set (eval_subquery runs sq) = ?mx ` (\<lambda>r. cell r g) ` set ?rs"
    using Some by (simp add: eval_subquery_def Let_def)
  then have "Some t \<in> set (eval_subquery runs sq) \<longleftrightarrow>
      (\<exists>r \<in> set ?rs. ?mx (cell r g) = Some t)"
    by (auto simp: image_iff)
  then show ?thesis unfolding grp .
qed

lemma eval_subquery_Nil:
  "eval_subquery runs sq = [] \<longleftrightarrow>
     sq_group_by sq \<noteq> None \<and> filter (passes (sq_filters sq)) runs = []"
  by (cases "sq_group_by sq") (auto simp: eval_subquery_def Let_def)

lemma not_in_True:
  "not_in x vs = Some True \<longleftrightarrow>
     vs = [] \<or> (\<exists>t. x = Some t \<and> Some t \<notin> set vs \<and> None \<notin> set vs)"
  by (auto simp: not_in_def split: option.splits)

text \<open>Rows whose value is not protected may go: the protected values stay protected.\<close>

lemma protected_stay:
  assumes del: "\<forall>r \<in> set runs. \<not> keep r \<longrightarrow>
      not_in (map_of (stamps r) (sq_max sq)) (eval_subquery runs sq) = Some True"
    and t: "Some t \<in> set (eval_subquery runs sq)"
  shows "Some t \<in> set (eval_subquery (filter keep runs) sq)"
proof -
  let ?val = "\<lambda>r. map_of (stamps r) (sq_max sq)"
  let ?rs = "filter (passes (sq_filters sq)) runs"
  let ?rs' = "filter (passes (sq_filters sq)) (filter keep runs)"
  let ?g = "sq_group_by sq"
  obtain r where r: "r \<in> set ?rs"
    and m: "sql_max (map ?val (filter (same_group ?g r) ?rs)) = Some t"
    using t unfolding eval_subquery_Some by blast
  from m obtain r1 where r1: "r1 \<in> set ?rs" "same_group ?g r r1" "?val r1 = Some t"
    and top: "\<forall>r' \<in> set ?rs. same_group ?g r r' \<longrightarrow> (\<forall>t'. ?val r' = Some t' \<longrightarrow> t' \<le> t)"
    unfolding sql_max_eq_Some by (auto simp: image_iff) metis
  have "keep r1"
  proof (rule ccontr)
    assume "\<not> keep r1"
    then have "not_in (Some t) (eval_subquery runs sq) = Some True"
      using del r1 by auto
    then show False using t by (auto simp: not_in_True)
  qed
  then have in': "r1 \<in> set ?rs'" using r1(1) by simp
  have grp: "same_group ?g r1 r' \<longleftrightarrow> same_group ?g r r'" for r'
    using r1(2) by (auto simp: same_group_def split: option.splits)
  have sub: "set ?rs' \<subseteq> set ?rs" by auto
  have "sql_max (map ?val (filter (same_group ?g r1) ?rs')) = Some t"
    unfolding sql_max_eq_Some
  proof (intro conjI allI impI)
    show "Some t \<in> set (map ?val (filter (same_group ?g r1) ?rs'))"
      using in' r1(3) grp r1(2) by (auto simp: image_iff intro!: bexI [of _ r1])
  next
    fix t'
    assume "Some t' \<in> set (map ?val (filter (same_group ?g r1) ?rs'))"
    then obtain r' where "r' \<in> set ?rs'" "same_group ?g r1 r'" "?val r' = Some t'"
      by (auto simp: image_iff)
    then show "t' \<le> t" using top sub grp by blast
  qed
  then show ?thesis unfolding eval_subquery_Some using in' by blast
qed

lemma not_in_after_delete:
  assumes del: "\<forall>r \<in> set runs. \<not> keep r \<longrightarrow>
      not_in (map_of (stamps r) (sq_max sq)) (eval_subquery runs sq) = Some True"
    and after: "not_in x (eval_subquery (filter keep runs) sq) = Some True"
  shows "not_in x (eval_subquery runs sq) = Some True"
proof -
  let ?P = "eval_subquery runs sq"
  let ?P' = "eval_subquery (filter keep runs) sq"
  consider "?P = []" | "?P \<noteq> []" "None \<in> set ?P" | "?P \<noteq> []" "None \<notin> set ?P" by blast
  then show ?thesis
  proof cases
    case 1
    then show ?thesis by (simp add: not_in_True)
  next
    case 2
    then have "\<forall>r \<in> set runs. keep r" using del by (auto simp: not_in_True)
    then have "filter keep runs = runs" by (simp add: filter_id_conv)
    then show ?thesis using after by simp
  next
    case 3
    then obtain t0 where t0: "Some t0 \<in> set ?P" by (cases ?P) (auto, metis option.exhaust)
    have "Some t0 \<in> set ?P'" using protected_stay [OF del t0] .
    then have ne: "?P' \<noteq> []" by auto
    then obtain t where x: "x = Some t" and nin: "Some t \<notin> set ?P'"
      using after by (auto simp: not_in_True)
    have "Some t \<notin> set ?P" using protected_stay [OF del] nin by blast
    then show ?thesis using x 3 by (simp add: not_in_True)
  qed
qed

lemma eval_where_conds:
  "\<exists>p. eval_where d (map Where cs) = Inr p \<and> (\<forall>r. p r \<longleftrightarrow> passes cs r)"
  by (induction cs) (auto simp: passes_def)

lemma keep_last_subquery_simps:
  "sq_table (keep_last_subquery ob) = DagRun"
  "sq_max (keep_last_subquery ob) = execution_date"
  "sq_group_by (keep_last_subquery ob) = keep_last_group_by ob"
  by (simp_all add: keep_last_subquery_def)

lemma filter_by_query_of:
  "q_table (filter_by (query_of ob m) cs) = airflow_db_model ob"
  "q_where (filter_by (query_of ob m) cs) = q_where (query_of ob m) @ cs"
  by (simp_all add: filter_by_def query_of_table)

lemma matching_filter_by:
  assumes "d (airflow_db_model ob) = Some rows"
    and "keep_last ob \<longrightarrow> d DagRun = Some runs"
  shows "\<exists>p. matching d (filter_by (query_of ob m) (map Where cs)) = Inr p \<and>
           (\<forall>r. p r \<longleftrightarrow> eligible ob m (protected_keys runs ob) r \<and> passes cs r)"
proof -
  obtain pc where pc: "eval_where d (map Where cs) = Inr pc" "\<forall>r. pc r \<longleftrightarrow> passes cs r"
    using eval_where_conds [of d cs] by blast
  show ?thesis
    using assms pc
    by (cases "keep_last ob")
      (auto simp: matching_def filter_by_query_of query_of_where eligible_def
        protected_keys_def keep_last_subquery_simps)
qed

lemma matching_filter_by_tables:
  assumes "matching d (filter_by (query_of ob m) (map Where cs)) = Inr p"
  shows "\<exists>rows. d (airflow_db_model ob) = Some rows"
    and "keep_last ob \<Longrightarrow> \<exists>runs. d DagRun = Some runs"
  using assms
  by (auto simp: matching_def filter_by_query_of query_of_where keep_last_subquery_simps
      split: option.splits if_splits sum.splits)

lemma delete_then_select:
  assumes own: "\<not> keep_last ob \<or> airflow_db_model ob \<noteq> DagRun \<or>
      age_check_column ob = execution_date"
    and del: "delete_all d (filter_by (query_of ob m) (map Where cs)) = Inr d1"
  shows "select_all d1 (filter_by (query_of ob m) (map Where cs)) = Inr []"
proof -
  let ?Q = "filter_by (query_of ob m) (map Where cs)"
  let ?T = "airflow_db_model ob"
  obtain p where p: "matching d ?Q = Inr p"
    and d1: "d1 = d(?T \<mapsto> filter (\<lambda>r. \<not> p r) (the (d ?T)))"
    using del by (auto simp: delete_all_def filter_by_query_of split: sum.splits)
  obtain rows where rows: "d ?T = Some rows"
    using matching_filter_by_tables(1) [OF p] by blast
  obtain runs where runs: "keep_last ob \<longrightarrow> d DagRun = Some runs"
    using matching_filter_by_tables(2) [OF p] by blast
  have pchar: "p r \<longleftrightarrow> eligible ob m (protected_keys runs ob) r \<and> passes cs r" for r
    using matching_filter_by [OF rows runs, of m cs] p by auto
  let ?runs1 = "if ?T = DagRun then filter (\<lambda>r. \<not> p r) runs else runs"
  have rows1: "d1 ?T = Some (filter (\<lambda>r. \<not> p r) rows)" using d1 rows by simp
  have runs1: "keep_last ob \<longrightarrow> d1 DagRun = Some ?runs1"
    using d1 rows runs by auto
  obtain p1 where p1: "matching d1 ?Q = Inr p1"
    and p1char: "\<forall>r. p1 r \<longleftrightarrow> eligible ob m (protected_keys ?runs1 ob) r \<and> passes cs r"
    using matching_filter_by [OF rows1 runs1, of m cs] by blast
  have none: "\<not> p1 r" if "\<not> p r" for r
  proof
    assume a: "p1 r"
    then have e1: "eligible ob m (protected_keys ?runs1 ob) r" and c: "passes cs r"
      using p1char by auto
    have ne: "\<not> eligible ob m (protected_keys runs ob) r" using that c pchar by simp
    have kl: "keep_last ob" using e1 ne by (auto simp: eligible_def)
    have n1: "not_in (map_of (stamps r) (age_check_column ob)) (protected_keys ?runs1 ob)
        = Some True"
      using e1 kl by (simp add: eligible_def)
    have n0: "not_in (map_of (stamps r) (age_check_column ob)) (protected_keys runs ob)
        \<noteq> Some True"
      using e1 ne kl by (auto simp: eligible_def)
    show False
    proof (cases "?T = DagRun")
      case False
      then show False using n0 n1 by simp
    next
      case True
      then have age: "age_check_column ob = execution_date" using own kl by blast
      have "\<forall>r \<in> set runs. \<not> \<not> p r \<longrightarrow>
          not_in (map_of (stamps r) (sq_max (keep_last_subquery ob)))
            (eval_subquery runs (keep_last_subquery ob)) = Some True"
        using pchar kl age
        by (auto simp: eligible_def protected_keys_def keep_last_subquery_simps)
      from not_in_after_delete [OF this, of "map_of (stamps r) (age_check_column ob)"]
      show False using n0 n1 True by (simp add: protected_keys_def)
    qed
  qed
  have "select_all d1 ?Q = Inr (filter p1 (filter (\<lambda>r. \<not> p r) rows))"
    using p1 rows1 by (simp add: select_all_def filter_by_query_of)
  moreover have "filter p1 (filter (\<lambda>r. \<not> p r) rows) = []"
    using none by (auto simp: filter_empty_conv)
  ultimately show ?thesis by simp
qed

lemmas query_defs = eval_subquery_def sql_max_def not_in_def passes_def cell_def
  List.map_filter_simps DagRun_def execution_date_def
lemmas run_defs = sample_runs_def tied_runs_def crossed_runs_def keep_last_overall_def
  by_start_date_def started_row_def started_runs_def run_row_def exempt_rows_def

lemma filter_by_Nil: "filter_by q [] = q"
  by (simp add: filter_by_def)

lemma select_none_delete_none:
  assumes "select_all d q = Inr []"
  shows "delete_all d q = Inr d"
proof -
  obtain p where p: "matching d q = Inr p" and e: "filter p (the (d (q_table q))) = []"
    using assms by (auto simp: select_all_def split: sum.splits)
  obtain rows where rows: "d (q_table q) = Some rows"
    using matching_present [OF p] by auto
  have "filter (\<lambda>r. \<not> p r) rows = rows"
    using e rows by (auto simp: filter_empty_conv filter_id_conv)
  then have "d(q_table q \<mapsto> filter (\<lambda>r. \<not> p r) (the (d (q_table q)))) = d"
    using rows by (simp add: fun_upd_idem)
  then show ?thesis using p by (simp add: delete_all_def)
qed

text \<open>
  C8 (as amended). For an entry without \<^verbatim>\<open>keep_last\<close>, an entry over a table other than
  the run table, or an entry whose age-check column is \<^verbatim>\<open>execution_date\<close> (every entry
  of \<^verbatim>\<open>DATABASE_OBJECTS\<close> is one of these), deletion is idempotent: once the rows that a
  partition's query selects are deleted, the same query with the same cutoff selects no
  row of the store that is left, and deleting again changes nothing. The same holds for
  the query over the whole table.
\<close>

theorem deletion_idempotent:
  "((\<not> keep_last ob \<or> airflow_db_model ob \<noteq> DagRun \<or> age_check_column ob = execution_date) \<and>
    delete_all d (partition_query ob cutoff dag) = Inr d1 \<longrightarrow>
      select_all d1 (partition_query ob cutoff dag) = Inr [] \<and>
      delete_all d1 (partition_query ob cutoff dag) = Inr d1) \<and>
   ((\<not> keep_last ob \<or> airflow_db_model ob \<noteq> DagRun \<or> age_check_column ob = execution_date) \<and>
    delete_all d (query_of ob cutoff) = Inr d1 \<longrightarrow>
      select_all d1 (query_of ob cutoff) = Inr [] \<and>
      delete_all d1 (query_of ob cutoff) = Inr d1)"
proof (intro conjI impI)
  assume a: "(\<not> keep_last ob \<or> airflow_db_model ob \<noteq> DagRun \<or>
      age_check_column ob = execution_date) \<and>
    delete_all d (partition_query ob cutoff dag) = Inr d1"
  have q: "partition_query ob cutoff dag = filter_by (query_of ob cutoff) (map Where [EqDag dag])"
    by (simp add: partition_query_def)
  show s: "select_all d1 (partition_query ob cutoff dag) = Inr []"
    using a delete_then_select [of ob d cutoff "[EqDag dag]" d1] unfolding q by blast
  show "delete_all d1 (partition_query ob cutoff dag) = Inr d1"
    using s by (rule select_none_delete_none)
next
  assume a: "(\<not> keep_last ob \<or> airflow_db_model ob \<noteq> DagRun \<or>
      age_check_column ob = execution_date) \<and>
    delete_all d (query_of ob cutoff) = Inr d1"
  have q: "query_of ob cutoff = filter_by (query_of ob cutoff) (map Where [])"
    by (simp add: filter_by_Nil)
  have "select_all d1 (filter_by (query_of ob cutoff) (map Where [])) = Inr []"
    using a delete_then_select [of ob d cutoff "[]" d1] by (simp add: filter_by_Nil)
  then show s: "select_all d1 (query_of ob cutoff) = Inr []" by (simp add: filter_by_Nil)
  show "delete_all d1 (query_of ob cutoff) = Inr d1"
    using s by (rule select_none_delete_none)
qed

text \<open>
  Witness for C8: partition \<open>X\<close> of the sample run table under the shipped run entry,
  and the empty import-error table under its entry, which has no \<^verbatim>\<open>keep_last\<close>.
\<close>

theorem deletion_idempotent_witness:
  "age_check_column (DATABASE_OBJECTS ! 1) = execution_date \<and>
   delete_all sample_runs (partition_query (DATABASE_OBJECTS ! 1) 100 (Some ''X'')) =
     Inr sample_runs_after_X \<and>
   select_all sample_runs_after_X (partition_query (DATABASE_OBJECTS ! 1) 100 (Some ''X'')) =
     Inr [] \<and>
   \<not> keep_last (DATABASE_OBJECTS ! 6) \<and>
   delete_all (no_tables(''import_error'' \<mapsto> [])) (query_of (DATABASE_OBJECTS ! 6) 100) =
     Inr (no_tables(''import_error'' \<mapsto> [])) \<and>
   select_all (no_tables(''import_error'' \<mapsto> [])) (query_of (DATABASE_OBJECTS ! 6) 100) =
     Inr []"
proof -
  let ?ob = "DATABASE_OBJECTS ! 1"
  have age: "age_check_column ?ob = execution_date" by (simp add: sample_defs)
  have del: "delete_all sample_runs (partition_query ?ob 100 (Some ''X'')) =
      Inr sample_runs_after_X"
    by (simp add: sample_runs_after_X_def run_defs query_defs store_defs sample_defs)
  have nk: "\<not> keep_last (DATABASE_OBJECTS ! 6)" by (simp add: sample_defs)
  have del6: "delete_all (no_tables(''import_error'' \<mapsto> []))
      (query_of (DATABASE_OBJECTS ! 6) 100) = Inr (no_tables(''import_error'' \<mapsto> []))"
    by (simp add: store_defs sample_defs)
  have "select_all sample_runs_after_X (partition_query ?ob 100 (Some ''X'')) = Inr []"
    using deletion_idempotent [where ob = ?ob and d = sample_runs and cutoff = 100
        and dag = "Some ''X''" and ?d1.0 = sample_runs_after_X] age del by blast
  moreover have "select_all (no_tables(''import_error'' \<mapsto> []))
      (query_of (DATABASE_OBJECTS ! 6) 100) = Inr []"
    using deletion_idempotent [where ob = "DATABASE_OBJECTS ! 6"
        and d = "no_tables(''import_error'' \<mapsto> [])" and cutoff = 100
        and ?d1.0 = "no_tables(''import_error'' \<mapsto> [])"] nk del6 by blast
  ultimately show ?thesis using age del nk del6 by blast
qed

text \<open>
  Counterexample to C8 as stated: an entry over the run table that keeps the last run
  and checks the age on \<^verbatim>\<open>start_date\<close>. The first deletion removes the run with the
  newest \<^verbatim>\<open>execution_date\<close>, whose start date is unprotected; the protected key then
  changes, and the same query selects the remaining run.
\<close>

theorem deletion_idempotent_counterexample:
  "delete_all started_runs (partition_query by_start_date 100 (Some ''X'')) =
     Inr (no_tables(''dag_run'' \<mapsto> [started_row 5 10])) \<and>
   select_all (no_tables(''dag_run'' \<mapsto> [started_row 5 10]))
     (partition_query by_start_date 100 (Some ''X'')) = Inr [started_row 5 10]"
  by (simp add: run_defs query_defs store_defs sample_defs)







end
